theory Spec2Isabelle
  imports Main "HOL-Library.Multiset" "HOL-Library.Sublist"
    "HOL-Library.Char_ord" "HOL-Library.List_Lexorder"
begin

section \<open>The feed generator \<^verbatim>\<open>scripts/generate_feed.py\<close>\<close>

text \<open>
  The script lists the MP3 files of a directory, selects some of them (a window that
  rotates with the calendar day, or a random sample), copies the selection into an
  output directory and writes an RSS document about it.

  Python's \<^verbatim>\<open>int\<close> is \<^typ>\<open>int\<close>; a \<^verbatim>\<open>str\<close> is a \<^typ>\<open>string\<close> whose
  characters are read as the code points U+0000 to U+00FF. Everything the script reads
  from its surroundings is a parameter of the model: the calendar date of the run, the
  draws of the random generator, the readings of the clock and the file system.
\<close>

subsection \<open>Errors\<close>

text \<open>
  \<^verbatim>\<open>raise SystemExit(msg)\<close> ends the run with the message; the other three are the
  exceptions that the indexing, the modulo and \<^verbatim>\<open>random.sample\<close> of Python raise.
\<close>

datatype error = SystemExit string | ValueError | ZeroDivisionError | IndexError

subsection \<open>Calendar dates\<close>

text \<open>
  \<^verbatim>\<open>date.toordinal()\<close> of the standard library counts the days of the proleptic
  Gregorian calendar, 0001-01-01 being day 1:
  \<^verbatim>\<open>
  def _is_leap(year):
      return year % 4 == 0 and (year % 100 != 0 or year % 400 == 0)
  def _days_before_year(year):
      y = year - 1
      return y*365 + y//4 - y//100 + y//400
  _DAYS_BEFORE_MONTH = [-1, 0, 31, 59, 90, 120, 151, 181, 212, 243, 273, 304, 334]
  def _days_before_month(year, month):
      return _DAYS_BEFORE_MONTH[month] + (month > 2 and _is_leap(year))
  def _ymd2ord(year, month, day):
      return _days_before_year(year) + _days_before_month(year, month) + day
  \<close>
  A \<^verbatim>\<open>date\<close> object always has \<open>1 \<le> month \<le> 12\<close>; the table lookup is written
  with a default so that the function is total.
\<close>

record date =
  year :: int
  month :: int
  day :: int

definition is_leap :: "int \<Rightarrow> bool" where
  "is_leap y \<longleftrightarrow> y mod 4 = 0 \<and> (y mod 100 \<noteq> 0 \<or> y mod 400 = 0)"

definition days_before_year :: "int \<Rightarrow> int" where
  "days_before_year yr = (let y = yr - 1 in y * 365 + y div 4 - y div 100 + y div 400)"

definition DAYS_BEFORE_MONTH :: "int list" where
  "DAYS_BEFORE_MONTH = [-1, 0, 31, 59, 90, 120, 151, 181, 212, 243, 273, 304, 334]"

definition days_before_month :: "int \<Rightarrow> int \<Rightarrow> int" where
  "days_before_month yr m =
     (if 1 \<le> m \<and> m \<le> 12 then DAYS_BEFORE_MONTH ! nat m else 0)
       + (if m > 2 \<and> is_leap yr then 1 else 0)"

definition toordinal :: "date \<Rightarrow> int" where
  "toordinal d = days_before_year (year d) + days_before_month (year d) (month d) + day d"

text \<open>Lines 86 and 87: the epoch and the index of today's day.\<close>

definition epoch :: int where
  "epoch = toordinal \<lparr>year = 2020, month = 1, day = 1\<rparr>"

definition today_index :: "date \<Rightarrow> int" where
  "today_index today = toordinal today - epoch"

subsection \<open>Python's indexing and modulo\<close>

text \<open>
  \<^verbatim>\<open>xs[i]\<close> counts a negative index from the end and raises \<^verbatim>\<open>IndexError\<close> out
  of range; \<^verbatim>\<open>a % b\<close> is the floor modulo and raises \<^verbatim>\<open>ZeroDivisionError\<close> for
  \<^verbatim>\<open>b == 0\<close>. On \<^typ>\<open>int\<close>, \<^term>\<open>(mod)\<close> is the floor modulo as well.
\<close>

definition getitem :: "'a list \<Rightarrow> int \<Rightarrow> error + 'a" where
  "getitem xs i =
     (let k = (if i < 0 then i + int (length xs) else i)
      in if k < 0 \<or> int (length xs) \<le> k then Inl IndexError else Inr (xs ! nat k))"

definition py_mod :: "int \<Rightarrow> int \<Rightarrow> error + int" where
  "py_mod a b = (if b = 0 then Inl ZeroDivisionError else Inr (a mod b))"

text \<open>\<^verbatim>\<open>range(k)\<close> is empty for \<open>k \<le> 0\<close>.\<close>

definition py_range :: "int \<Rightarrow> int list" where
  "py_range k = map int [0..<nat k]"

subsection \<open>Rotate mode (lines 86 to 91)\<close>

text \<open>
  \<^verbatim>\<open>
  epoch = date(2020,1,1).toordinal()
  today_index = date.today().toordinal() - epoch
  start = (today_index * take) % n
  chosen = []
  for i in range(take):
      chosen.append(all_files[(start + i) % n])
  \<close>
  The loop is a recursion over the values of \<open>i\<close>, with \<open>chosen\<close> as accumulator;
  the variable \<^verbatim>\<open>take\<close> is written \<open>tk\<close>.
\<close>

fun rotate_loop :: "'a list \<Rightarrow> int \<Rightarrow> int \<Rightarrow> int list \<Rightarrow> 'a list \<Rightarrow> error + 'a list" where
  "rotate_loop all_files n start [] chosen = Inr chosen"
| "rotate_loop all_files n start (i # is) chosen =
     (case py_mod (start + i) n of
        Inl e \<Rightarrow> Inl e
      | Inr k \<Rightarrow>
         (case getitem all_files k of
            Inl e \<Rightarrow> Inl e
          | Inr f \<Rightarrow> rotate_loop all_files n start is (chosen @ [f])))"

definition rotate :: "'a list \<Rightarrow> int \<Rightarrow> date \<Rightarrow> error + 'a list" where
  "rotate all_files tk today =
     (let n = int (length all_files) in
      case py_mod (today_index today * tk) n of
        Inl e \<Rightarrow> Inl e
      | Inr start \<Rightarrow> rotate_loop all_files n start (py_range tk) [])"

subsection \<open>Random mode (line 84)\<close>

text \<open>
  \<^verbatim>\<open>random.sample(population, k)\<close> of the standard library:
  \<^verbatim>\<open>
  n = len(population)
  if not 0 <= k <= n:
      raise ValueError("Sample larger than population or is negative")
  result = [None] * k
  setsize = 21
  if k > 5:
      setsize += 4 ** _ceil(_log(k * 3, 4))
  if n <= setsize:
      pool = list(population)
      for i in range(k):
          j = randbelow(n - i)
          result[i] = pool[j]
          pool[j] = pool[n - i - 1]
  else:
      ... (rejection sampling of k distinct positions)
  return result
  \<close>
  The model is the first branch; it is the branch taken whenever \<open>k = n\<close>, and both
  branches return the empty list for \<open>k = 0\<close>. The generator is the parameter
  \<open>rnd\<close>: the \<open>i\<close>-th call \<^verbatim>\<open>randbelow(m)\<close> returns \<open>rnd i mod m\<close>, so that every
  sequence of draws in range is the behaviour of some \<open>rnd\<close>. The slots of \<open>result\<close>
  are filled from left to right, which the model writes as appending.
\<close>

fun sample_loop :: "(nat \<Rightarrow> nat) \<Rightarrow> nat \<Rightarrow> nat list \<Rightarrow> 'a list \<Rightarrow> 'a list \<Rightarrow> 'a list" where
  "sample_loop rnd n [] pool result = result"
| "sample_loop rnd n (i # is) pool result =
     (let j = rnd i mod (n - i)
      in sample_loop rnd n is (pool[j := pool ! (n - i - 1)]) (result @ [pool ! j]))"

definition sample :: "(nat \<Rightarrow> nat) \<Rightarrow> 'a list \<Rightarrow> int \<Rightarrow> error + 'a list" where
  "sample rnd population k =
     (let n = length population in
      if \<not> (0 \<le> k \<and> k \<le> int n) then Inl ValueError
      else Inr (sample_loop rnd n [0..<nat k] population []))"

subsection \<open>The selection (lines 80 to 91)\<close>

text \<open>
  \<^verbatim>\<open>
  n = len(all_files)
  take = min(num, n)
  if mode == 'random':
      chosen = random.sample(all_files, take)
  else:
      (rotate mode)
  \<close>
\<close>

datatype mode = Rotate | Random

definition select_files :: "mode \<Rightarrow> (nat \<Rightarrow> nat) \<Rightarrow> date \<Rightarrow> 'a list \<Rightarrow> int \<Rightarrow> error + 'a list" where
  "select_files md rnd today all_files num =
     (let n = int (length all_files); tk = min num n in
      case md of
        Random \<Rightarrow> sample rnd all_files tk
      | Rotate \<Rightarrow> rotate all_files tk today)"

text \<open>A generator for the examples: every draw is 0.\<close>

definition zero_draws :: "nat \<Rightarrow> nat" where
  "zero_draws i = 0"

section \<open>Titles (lines 23 to 27)\<close>

text \<open>
  \<^verbatim>\<open>
  def sanitize_title(fn):
      name = os.path.splitext(fn)[0]
      # replace underscores & dashes with spaces, strip numbers at start
      name = name.replace('_', ' ').replace('-', ' ').strip()
      return name
  \<close>
\<close>

subsection \<open>\<^verbatim>\<open>str.rfind\<close> and \<^verbatim>\<open>os.path.splitext\<close>\<close>

text \<open>
  \<^verbatim>\<open>p.rfind(c)\<close> is the highest index of the character \<open>c\<close> in \<open>p\<close>, or -1.
  The search runs down from the end of the string.
\<close>

fun rfind_below :: "string \<Rightarrow> char \<Rightarrow> nat \<Rightarrow> int" where
  "rfind_below p c 0 = - 1"
| "rfind_below p c (Suc i) = (if p ! i = c then int i else rfind_below p c i)"

definition rfind :: "string \<Rightarrow> char \<Rightarrow> int" where
  "rfind p c = rfind_below p c (length p)"

text \<open>
  \<^verbatim>\<open>os.path.splitext\<close> on POSIX (\<^verbatim>\<open>sep = '/'\<close>, no \<^verbatim>\<open>altsep\<close>,
  \<^verbatim>\<open>extsep = '.'\<close>):
  \<^verbatim>\<open>
  def _splitext(p, sep, altsep, extsep):
      sepIndex = p.rfind(sep)
      dotIndex = p.rfind(extsep)
      if dotIndex > sepIndex:
          # skip all leading dots
          filenameIndex = sepIndex + 1
          while filenameIndex < dotIndex:
              if p[filenameIndex:filenameIndex+1] != extsep:
                  return p[:dotIndex], p[dotIndex:]
              filenameIndex += 1
      return p, p[:0]
  \<close>
  The loop returns \<open>Some\<close> of the split when it finds a character other than the dot,
  and \<open>None\<close> when it runs to its end. Inside the loop
  \<open>0 \<le> filenameIndex < dotIndex < len(p)\<close>, so the slices are the character at
  \<open>filenameIndex\<close> and the two parts of \<open>p\<close> at \<open>dotIndex\<close>.
\<close>

function splitext_loop :: "string \<Rightarrow> int \<Rightarrow> int \<Rightarrow> (string \<times> string) option" where
  "splitext_loop p filenameIndex dotIndex =
     (if filenameIndex < dotIndex then
        (if p ! nat filenameIndex \<noteq> CHR ''.''
         then Some (take (nat dotIndex) p, drop (nat dotIndex) p)
         else splitext_loop p (filenameIndex + 1) dotIndex)
      else None)"
  by pat_completeness auto
termination
  by (relation "measure (\<lambda>(p, filenameIndex, dotIndex). nat (dotIndex - filenameIndex))") auto

definition splitext :: "string \<Rightarrow> string \<times> string" where
  "splitext p =
     (let sepIndex = rfind p CHR ''/''; dotIndex = rfind p CHR ''.'' in
      if dotIndex > sepIndex then
        (case splitext_loop p (sepIndex + 1) dotIndex of
           Some r \<Rightarrow> r
         | None \<Rightarrow> (p, []))
      else (p, []))"

subsection \<open>\<^verbatim>\<open>str.replace\<close> and \<^verbatim>\<open>str.strip\<close>\<close>

text \<open>
  \<^verbatim>\<open>s.replace(old, new)\<close> with one-character \<open>old\<close> and \<open>new\<close> replaces every
  occurrence of the character.
\<close>

definition replace :: "string \<Rightarrow> char \<Rightarrow> char \<Rightarrow> string" where
  "replace s old new = map (\<lambda>c. if c = old then new else c) s"

text \<open>
  \<^verbatim>\<open>str.isspace\<close> on the code points below 256: the ASCII white space (9 to 13, 28 to
  31 and 32), U+0085 and U+00A0.
\<close>

definition isspace :: "char \<Rightarrow> bool" where
  "isspace c \<longleftrightarrow>
     (let k = (of_char c :: nat) in (9 \<le> k \<and> k \<le> 13) \<or> (28 \<le> k \<and> k \<le> 32) \<or> k = 133 \<or> k = 160)"

text \<open>
  \<^verbatim>\<open>s.strip()\<close> moves an index \<open>i\<close> up from 0 and an index \<open>j\<close> down from
  \<^verbatim>\<open>len(s)\<close> over the white space and returns \<^verbatim>\<open>s[i:j]\<close>.
\<close>

function strip_left :: "string \<Rightarrow> nat \<Rightarrow> nat" where
  "strip_left s i = (if i < length s \<and> isspace (s ! i) then strip_left s (Suc i) else i)"
  by pat_completeness auto
termination
  by (relation "measure (\<lambda>(s, i). length s - i)") auto

function strip_right :: "string \<Rightarrow> nat \<Rightarrow> nat \<Rightarrow> nat" where
  "strip_right s i j = (if i < j \<and> isspace (s ! (j - 1)) then strip_right s i (j - 1) else j)"
  by pat_completeness auto
termination
  by (relation "measure (\<lambda>(s, i, j). j)") auto

definition strip :: "string \<Rightarrow> string" where
  "strip s = (let i = strip_left s 0; j = strip_right s i (length s) in take (j - i) (drop i s))"

definition sanitize_title :: "string \<Rightarrow> string" where
  "sanitize_title fn =
     (let name = fst (splitext fn);
          name = strip (replace (replace name CHR ''_'' CHR '' '') CHR ''-'' CHR '' '')
      in name)"

subsection \<open>The title as the specification words it\<close>

text \<open>
  The extension of a filename is its last dot and what follows it, as in the filter
  that makes \<^verbatim>\<open>.mp3\<close> the extension of a candidate; a name without a dot has no
  extension. The title is the name without its extension, every underscore and hyphen
  turned into a space, without the white space at both ends.
\<close>

definition spec_stem :: "string \<Rightarrow> string" where
  "spec_stem fn =
     (if CHR ''.'' \<in> set fn then rev (drop 1 (dropWhile (\<lambda>c. c \<noteq> CHR ''.'') (rev fn)))
      else fn)"

definition spec_trim :: "string \<Rightarrow> string" where
  "spec_trim s = rev (dropWhile isspace (rev (dropWhile isspace s)))"

definition spec_title :: "string \<Rightarrow> string" where
  "spec_title fn =
     spec_trim (map (\<lambda>c. if c = CHR ''_'' \<or> c = CHR ''-'' then CHR '' '' else c) (spec_stem fn))"

section \<open>The feed document (lines 20 to 49)\<close>

text \<open>
  An item is the dictionary that \<^verbatim>\<open>main\<close> builds for a chosen file, with the keys
  \<^verbatim>\<open>filename\<close>, \<^verbatim>\<open>title\<close>, \<^verbatim>\<open>length\<close> (already a string) and \<^verbatim>\<open>url\<close>.
\<close>

record item =
  item_filename :: string
  item_title :: string
  item_length :: string
  item_url :: string

text \<open>
  \<^verbatim>\<open>rfc2822_now()\<close> reads the clock. \<^verbatim>\<open>build_feed\<close> reads it once for
  \<^verbatim>\<open>lastBuildDate\<close> and once per item; \<open>clock k\<close> is the text of the \<open>k\<close>-th
  reading. The file \<open>f\<close> is opened for writing, so its content is what the calls of
  \<^verbatim>\<open>f.write\<close> append, in their order.
  \<^verbatim>\<open>
  for it in items:
      pubdate = rfc2822_now()
      guid = f"{it['url']}#{it['filename']}"
      f.write('    <item>\n')
      f.write(f'      <title>{it["title"]}</title>\n')
      f.write(f'      <pubDate>{pubdate}</pubDate>\n')
      f.write(f'      <guid isPermaLink="false">{guid}</guid>\n')
      f.write(f'      <enclosure url="{it["url"]}" length="{it["length"]}" type="audio/mpeg" />\n')
      f.write('    </item>\n')
  \<close>
\<close>

fun write_items :: "item list \<Rightarrow> (nat \<Rightarrow> string) \<Rightarrow> nat \<Rightarrow> string \<Rightarrow> string" where
  "write_items [] clock t f = f"
| \<open>write_items (it # items) clock t f =
     (let pubdate = clock t;
          guid = item_url it @ ''#'' @ item_filename it;
          f = f @ ''    <item>\<newline>'';
          f = f @ ''      <title>'' @ item_title it @ ''</title>\<newline>'';
          f = f @ ''      <pubDate>'' @ pubdate @ ''</pubDate>\<newline>'';
          f = f @ ''      <guid isPermaLink="false">'' @ guid @ ''</guid>\<newline>'';
          f = f @ ''      <enclosure url="'' @ item_url it @ ''" length="'' @ item_length it
                @ ''" type="audio/mpeg" />\<newline>'';
          f = f @ ''    </item>\<newline>''
      in write_items items clock (Suc t) f)\<close>

definition build_feed :: "item list \<Rightarrow> string \<Rightarrow> string \<Rightarrow> string \<Rightarrow> (nat \<Rightarrow> string) \<Rightarrow> string" where
  \<open>build_feed items channel_title channel_link channel_description clock =
     (let now = clock 0;
          f = [];
          f = f @ ''<?xml version="1.0" encoding="UTF-8"?>\<newline>'';
          f = f @ ''<rss version="2.0">\<newline>'';
          f = f @ ''  <channel>\<newline>'';
          f = f @ ''    <title>'' @ channel_title @ ''</title>\<newline>'';
          f = f @ ''    <link>'' @ channel_link @ ''</link>\<newline>'';
          f = f @ ''    <description>'' @ channel_description @ ''</description>\<newline>'';
          f = f @ ''    <lastBuildDate>'' @ now @ ''</lastBuildDate>\<newline>'';
          f = write_items items clock 1 f;
          f = f @ ''  </channel>\<newline>'';
          f = f @ ''</rss>\<newline>''
      in f)\<close>

subsection \<open>The document as the specification words it\<close>

text \<open>
  The GUID of an item is its public URL, a \<^verbatim>\<open>#\<close> and its raw filename; it is not a
  permalink. The enclosure carries the URL, the byte length and the MIME type
  \<^verbatim>\<open>audio/mpeg\<close>. The document is the channel's head, one \<^verbatim>\<open><item>\<close> block per
  item in the order of the items, and the closing tags.
\<close>

definition spec_guid :: "item \<Rightarrow> string" where
  \<open>spec_guid it =
     ''<guid isPermaLink="false">'' @ item_url it @ ''#'' @ item_filename it @ ''</guid>''\<close>

definition spec_enclosure :: "item \<Rightarrow> string" where
  \<open>spec_enclosure it =
     ''<enclosure url="'' @ item_url it @ ''" length="'' @ item_length it
       @ ''" type="audio/mpeg" />''\<close>

definition spec_item_block :: "item \<Rightarrow> string \<Rightarrow> string" where
  \<open>spec_item_block it pubdate =
     concat
      [''    <item>\<newline>'',
       ''      <title>'' @ item_title it @ ''</title>\<newline>'',
       ''      <pubDate>'' @ pubdate @ ''</pubDate>\<newline>'',
       ''      '' @ spec_guid it @ ''\<newline>'',
       ''      '' @ spec_enclosure it @ ''\<newline>'',
       ''    </item>\<newline>'']\<close>

definition spec_channel_head :: "string \<Rightarrow> string \<Rightarrow> string \<Rightarrow> string \<Rightarrow> string" where
  \<open>spec_channel_head channel_title channel_link channel_description now =
     concat
      [''<?xml version="1.0" encoding="UTF-8"?>\<newline>'',
       ''<rss version="2.0">\<newline>'',
       ''  <channel>\<newline>'',
       ''    <title>'' @ channel_title @ ''</title>\<newline>'',
       ''    <link>'' @ channel_link @ ''</link>\<newline>'',
       ''    <description>'' @ channel_description @ ''</description>\<newline>'',
       ''    <lastBuildDate>'' @ now @ ''</lastBuildDate>\<newline>'']\<close>

definition spec_channel_tail :: string where
  \<open>spec_channel_tail = ''  </channel>\<newline></rss>\<newline>''\<close>

section \<open>The run (lines 51 to 109)\<close>

subsection \<open>Strings\<close>

text \<open>
  \<^verbatim>\<open>s.rstrip(chars)\<close> drops the characters of \<open>chars\<close> from the end of \<open>s\<close>;
  \<^verbatim>\<open>s.lower()\<close> on the code points below 256 moves A to Z and the capital letters
  U+00C0 to U+00DE (but the sign U+00D7) 32 places up; \<^verbatim>\<open>str(n)\<close> is the decimal
  numeral of \<open>n\<close>.
\<close>

definition rstrip :: "string \<Rightarrow> string \<Rightarrow> string" where
  "rstrip s chars = rev (dropWhile (\<lambda>c. c \<in> set chars) (rev s))"

definition lower_char :: "char \<Rightarrow> char" where
  "lower_char c =
     (let k = (of_char c :: nat) in
      if (65 \<le> k \<and> k \<le> 90) \<or> (192 \<le> k \<and> k \<le> 214) \<or> (216 \<le> k \<and> k \<le> 222)
      then char_of (k + 32) else c)"

definition lower :: "string \<Rightarrow> string" where
  "lower s = map lower_char s"

definition endswith :: "string \<Rightarrow> string \<Rightarrow> bool" where
  "endswith s suf \<longleftrightarrow>
     length suf \<le> length s \<and> drop (length s - length suf) s = suf"

fun str_nat :: "nat \<Rightarrow> string" where
  "str_nat n =
     (if n < 10 then [char_of (48 + n)] else str_nat (n div 10) @ [char_of (48 + n mod 10)])"

text \<open>
  \<^verbatim>\<open>os.path.join(a, b)\<close> on POSIX: \<open>b\<close> alone when it is absolute, else \<open>a\<close> and
  \<open>b\<close> with one \<^verbatim>\<open>/\<close> between them unless \<open>a\<close> is empty or ends in one.
\<close>

definition join :: "string \<Rightarrow> string \<Rightarrow> string" where
  "join a b =
     (if b \<noteq> [] \<and> hd b = CHR ''/'' then b
      else if a = [] \<or> last a = CHR ''/'' then a @ b
      else a @ ''/'' @ b)"

subsection \<open>The file system\<close>

text \<open>
  A directory is the list of its files, each a name and a content; the file system maps
  the path of a directory to the directory, and a path that is not bound does not exist.
  Directories under different paths are different directories, the entries of a directory
  are regular files, and the copies and writes of a run succeed: the failures of the
  operating system are not part of the model.
\<close>

type_synonym directory = "(string \<times> string) list"

type_synonym filesystem = "string \<Rightarrow> directory option"

definition isdir :: "filesystem \<Rightarrow> string \<Rightarrow> bool" where
  "isdir fs path \<longleftrightarrow> fs path \<noteq> None"

definition path_exists :: "filesystem \<Rightarrow> string \<Rightarrow> bool" where
  "path_exists fs path \<longleftrightarrow> fs path \<noteq> None"

definition rmtree :: "filesystem \<Rightarrow> string \<Rightarrow> filesystem" where
  "rmtree fs path = fs(path := None)"

definition makedirs :: "filesystem \<Rightarrow> string \<Rightarrow> filesystem" where
  "makedirs fs path = (if fs path = None then fs(path \<mapsto> []) else fs)"

definition listdir :: "filesystem \<Rightarrow> string \<Rightarrow> string list" where
  "listdir fs path = (case fs path of None \<Rightarrow> [] | Some d \<Rightarrow> map fst d)"

definition read_file :: "filesystem \<Rightarrow> string \<Rightarrow> string \<Rightarrow> string" where
  "read_file fs path name =
     (case fs path of
        None \<Rightarrow> []
      | Some d \<Rightarrow> (case map_of d name of None \<Rightarrow> [] | Some content \<Rightarrow> content))"

definition write_file :: "filesystem \<Rightarrow> string \<Rightarrow> string \<Rightarrow> string \<Rightarrow> filesystem" where
  "write_file fs path name content =
     (case fs path of
        None \<Rightarrow> fs
      | Some d \<Rightarrow> fs(path \<mapsto> (name, content) # filter (\<lambda>e. fst e \<noteq> name) d))"

definition copy2 :: "filesystem \<Rightarrow> string \<Rightarrow> string \<Rightarrow> string \<Rightarrow> filesystem" where
  "copy2 fs src_dir dst_dir name = write_file fs dst_dir name (read_file fs src_dir name)"

definition getsize :: "filesystem \<Rightarrow> string \<Rightarrow> string \<Rightarrow> nat" where
  "getsize fs path name = length (read_file fs path name)"

subsection \<open>\<^verbatim>\<open>main\<close>\<close>

text \<open>
  The parsed command line. The loop of lines 94 to 105 copies each chosen file and
  appends its item:
  \<^verbatim>\<open>
  for fn in chosen:
      src = os.path.join(mp3_dir, fn)
      dst = os.path.join(out_dir, fn)
      shutil.copy2(src, dst)
      length = os.path.getsize(dst)
      url = f"{site_url}/{fn}"
      items.append({'filename': fn, 'title': sanitize_title(fn),
                    'length': str(length), 'url': url})
  \<close>
  A chosen name comes from the listing of the directory: \<open>src\<close> and \<open>dst\<close> are the
  files of that name in the two directories.
\<close>

record args =
  arg_mp3_dir :: string
  arg_out :: string
  arg_num :: int
  arg_site_url :: string
  arg_mode :: mode
  arg_channel_title :: string
  arg_channel_desc :: string

fun copy_loop ::
  "string list \<Rightarrow> string \<Rightarrow> string \<Rightarrow> string \<Rightarrow> filesystem \<Rightarrow> item list \<Rightarrow> item list \<times> filesystem" where
  "copy_loop [] mp3_dir out_dir site_url fs items = (items, fs)"
| "copy_loop (fn # chosen) mp3_dir out_dir site_url fs items =
     (let fs = copy2 fs mp3_dir out_dir fn;
          len = getsize fs out_dir fn;
          url = site_url @ ''/'' @ fn
      in copy_loop chosen mp3_dir out_dir site_url fs
           (items @ [\<lparr>item_filename = fn, item_title = sanitize_title fn,
                      item_length = str_nat len, item_url = url\<rparr>]))"

text \<open>
  \<^verbatim>\<open>main\<close> returns what it prints, or the exception that ends it, together with the
  file system it leaves behind. The steps are in the order of the source: the check of
  the source directory (line 68), the cleaning of the output directory (lines 72 to 74),
  the listing (line 76) and its check (line 77), the selection, the copies, the feed.
\<close>

definition main ::
  "args \<Rightarrow> date \<Rightarrow> (nat \<Rightarrow> nat) \<Rightarrow> (nat \<Rightarrow> string) \<Rightarrow> filesystem \<Rightarrow> (error + string) \<times> filesystem" where
  "main args today rnd clock fs =
     (let mp3_dir = arg_mp3_dir args;
          out_dir = arg_out args;
          num = arg_num args;
          site_url = rstrip (arg_site_url args) ''/'';
          mode = arg_mode args
      in
      if \<not> isdir fs mp3_dir then (Inl (SystemExit (''mp3 dir not found: '' @ mp3_dir)), fs)
      else
        let fs = (if path_exists fs out_dir then rmtree fs out_dir else fs);
            fs = makedirs fs out_dir;
            all_files = filter (\<lambda>f. endswith (lower f) ''.mp3'') (sort (listdir fs mp3_dir))
        in
        if all_files = [] then (Inl (SystemExit ''No mp3 files found in mp3_dir''), fs)
        else
          (case select_files mode rnd today all_files num of
             Inl e \<Rightarrow> (Inl e, fs)
           | Inr chosen \<Rightarrow>
              (case copy_loop chosen mp3_dir out_dir site_url fs [] of
                 (items, fs) \<Rightarrow>
                   let feed_file = join out_dir ''feed.xml'';
                       fs = write_file fs out_dir ''feed.xml''
                              (build_feed items (arg_channel_title args) (arg_site_url args)
                                 (arg_channel_desc args) clock)
                   in (Inr (''Wrote '' @ str_nat (length items) @ '' items to '' @ feed_file),
                       fs))))"

text \<open>
  Two intermediate values of \<^verbatim>\<open>main\<close> by name: the file system after the cleaning
  of lines 72 to 74, and the list \<^verbatim>\<open>all_files\<close> of line 76.
\<close>

definition clean_out_dir :: "filesystem \<Rightarrow> string \<Rightarrow> filesystem" where
  "clean_out_dir fs out_dir =
     makedirs (if path_exists fs out_dir then rmtree fs out_dir else fs) out_dir"

definition mp3_files :: "filesystem \<Rightarrow> string \<Rightarrow> string list" where
  "mp3_files fs mp3_dir = filter (\<lambda>f. endswith (lower f) ''.mp3'') (sort (listdir fs mp3_dir))"

subsection \<open>Inputs for the examples\<close>

definition fixed_clock :: "nat \<Rightarrow> string" where
  "fixed_clock k = ''Wed, 04 Nov 2026 08:00:00 GMT''"

definition example_args :: args where
  "example_args =
     \<lparr>arg_mp3_dir = ''mp3'', arg_out = ''public'', arg_num = 10,
      arg_site_url = ''https://host/'', arg_mode = Rotate,
      arg_channel_title = ''Daily Yoto Mix'',
      arg_channel_desc = ''Rotating daily subset of my MP3s for Yoto''\<rparr>"

definition example_fs :: filesystem where
  "example_fs =
     [''mp3'' \<mapsto> [(''b.mp3'', ''bbbb''), (''notes.txt'', ''n''), (''a.MP3'', ''aa'')],
      ''public'' \<mapsto> [(''old.mp3'', ''oooo''), (''feed.xml'', ''<rss/>'')]]"

definition no_mp3_fs :: filesystem where
  "no_mp3_fs =
     [''mp3'' \<mapsto> [(''notes.txt'', ''n'')],
      ''public'' \<mapsto> [(''old.mp3'', ''oooo''), (''feed.xml'', ''<rss/>'')]]"

text \<open>The equations of these loops are unfolded by hand, one step at a time.\<close>

declare splitext_loop.simps [simp del] strip_left.simps [simp del] strip_right.simps [simp del]
  str_nat.simps [simp del]

section \<open>Properties of the selection\<close>

lemma epoch_value: "epoch = 737425"
  by (simp add: epoch_def toordinal_def days_before_year_def days_before_month_def
      DAYS_BEFORE_MONTH_def)


lemma getitem_in_range: "0 \<le> i \<Longrightarrow> i < int (length xs) \<Longrightarrow> getitem xs i = Inr (xs ! nat i)"
  by (simp add: getitem_def)

lemma rotate_loop_eq:
  assumes "all_files \<noteq> []"
  shows "rotate_loop all_files (int (length all_files)) start js chosen =
    Inr (chosen @ map (\<lambda>i. all_files ! nat ((start + i) mod int (length all_files))) js)"
proof (induction js arbitrary: chosen)
  case Nil
  show ?case by simp
next
  case (Cons i js)
  let ?n = "int (length all_files)"
  from assms have n: "0 < ?n" by simp
  then have "0 \<le> (start + i) mod ?n" "(start + i) mod ?n < ?n" by simp_all
  then have "getitem all_files ((start + i) mod ?n) = Inr (all_files ! nat ((start + i) mod ?n))"
    by (rule getitem_in_range)
  with n Cons.IH show ?case by (simp add: py_mod_def)
qed

lemma rotate_eq:
  assumes "all_files \<noteq> []"
  shows "rotate all_files tk today =
    Inr (map (\<lambda>i. all_files ! nat (((today_index today * tk) mod int (length all_files) + int i)
                 mod int (length all_files))) [0..<nat tk])"
  using assms by (simp add: rotate_def py_mod_def rotate_loop_eq py_range_def comp_def Let_def)

lemma window_inj:
  fixes s :: int and n :: nat
  assumes "i < k" "j < k" "k \<le> n" "(s + int i) mod int n = (s + int j) mod int n"
  shows "i = j"
proof -
  from assms(4) have "int n dvd (s + int i) - (s + int j)"
    by (simp add: mod_eq_dvd_iff)
  then have "int n dvd int i - int j" by simp
  moreover from assms have "\<bar>int i - int j\<bar> < int n" by linarith
  ultimately have "int i - int j = 0" using zdvd_not_zless[of "\<bar>int i - int j\<bar>" "int n"]
    by (metis abs_0_eq dvd_abs_iff zdvd_not_zless zero_less_abs_iff abs_zero)
  then show ?thesis by simp
qed

lemma sample_loop_mset:
  assumes "length pool = n" "i \<le> n"
  shows "mset (sample_loop rnd n [i..<n] pool result) = mset result + mset (take (n - i) pool)"
  using assms
proof (induction "n - i" arbitrary: i pool result)
  case 0
  then show ?case by simp
next
  case (Suc m)
  then have lt: "i < n" and m: "m = n - Suc i" by linarith+
  define j where "j = rnd i mod (n - i)"
  have j: "j \<le> m" using lt m by (simp add: j_def) (metis Suc_diff_Suc less_Suc_eq_le lt mod_less_divisor zero_less_Suc)
  define pool' where "pool' = pool[j := pool ! (n - i - 1)]"
  have len: "length pool' = n" by (simp add: pool'_def Suc.prems)
  have step: "sample_loop rnd n [i..<n] pool result = sample_loop rnd n [Suc i..<n] pool' (result @ [pool ! j])"
    using lt by (simp add: upt_conv_Cons j_def pool'_def Let_def)
  have IH: "mset (sample_loop rnd n [Suc i..<n] pool' (result @ [pool ! j]))
      = mset (result @ [pool ! j]) + mset (take (n - Suc i) pool')"
    using Suc.hyps(1)[of "Suc i" pool' "result @ [pool ! j]"] m len lt by simp
  have mn: "m < n" using m lt by simp
  have tk: "take (n - i) pool = take m pool @ [pool ! m]"
    using m lt Suc.prems mn by (metis Suc_diff_Suc take_Suc_conv_app_nth)
  have key: "mset (take m pool') + {#pool ! j#} = mset (take m pool) + {#pool ! m#}"
  proof (cases "j = m")
    case True
    then show ?thesis using m by (simp add: pool'_def)
  next
    case False
    with j have jm: "j < m" by simp
    have "take m pool' = (take m pool)[j := pool ! m]"
      using m by (simp add: pool'_def take_update_swap)
    moreover have jl: "j < length (take m pool)" using jm mn Suc.prems by simp
    moreover have "take m pool ! j \<in># mset (take m pool)" using jl by (rule nth_mem_mset)
    ultimately show ?thesis using jm by (simp add: mset_update)
  qed
  show ?case unfolding step IH using key tk m by (simp add: ac_simps)
qed

lemma sample_full:
  "\<exists>res. sample rnd population (int (length population)) = Inr res \<and> mset res = mset population"
  using sample_loop_mset[of population "length population" 0 rnd "[]"]
  by (simp add: sample_def Let_def)


lemmas date_defs = today_index_def epoch_def toordinal_def days_before_year_def
  days_before_month_def DAYS_BEFORE_MONTH_def is_leap_def

lemma select_rotate:
  assumes "all_files \<noteq> []"
  shows "select_files Rotate rnd today all_files num =
    Inr (map (\<lambda>i. all_files ! nat (((today_index today * min num (int (length all_files)))
                   mod int (length all_files) + int i) mod int (length all_files)))
          [0..<nat (min num (int (length all_files)))])"
  using assms by (simp add: select_files_def Let_def rotate_eq)

text \<open>
  Claim C1. For a non-empty pool of \<open>N\<close> distinct filenames and \<open>0 < take \<le> N\<close> (then
  \<open>take\<close> is the requested number), rotate mode returns, on every date, exactly \<open>take\<close>
  distinct filenames, the \<open>i\<close>-th being \<open>pool[(start + i) mod N]\<close> with
  \<open>start = (dayIndex * take) mod N\<close> and \<open>dayIndex\<close> the number of days from 2020-01-01
  to the date. For \<open>N = 5\<close> and \<open>take = 2\<close> the result is \<open>[pool[0], pool[1]]\<close> on
  2020-01-01 (day index 0) and \<open>[pool[2], pool[3]]\<close> on 2020-01-02 (day index 1).
\<close>

theorem rotate_selection_window:
  assumes "all_files \<noteq> []" and "distinct all_files"
    and "0 < num" and "num \<le> int (length all_files)"
  shows "(\<exists>res. select_files Rotate rnd today all_files num = Inr res
            \<and> length res = nat num \<and> distinct res
            \<and> (\<forall>i<nat num. res ! i =
                  all_files ! nat (((today_index today * num) mod int (length all_files) + int i)
                                    mod int (length all_files))))
    \<and> today_index \<lparr>year = 2020, month = 1, day = 1\<rparr> = 0
    \<and> select_files Rotate rnd \<lparr>year = 2020, month = 1, day = 1\<rparr> [p0, p1, p2, p3, p4] 2
        = Inr [p0, p1]
    \<and> today_index \<lparr>year = 2020, month = 1, day = 2\<rparr> = 1
    \<and> select_files Rotate rnd \<lparr>year = 2020, month = 1, day = 2\<rparr> [p0, p1, p2, p3, p4] 2
        = Inr [p2, p3]"
proof -
  let ?n = "int (length all_files)"
  let ?s = "(today_index today * num) mod ?n"
  let ?f = "\<lambda>i. all_files ! nat ((?s + int i) mod ?n)"
  let ?res = "map ?f [0..<nat num]"
  have m: "min num ?n = num" using assms(4) by simp
  have sel: "select_files Rotate rnd today all_files num = Inr ?res"
    using select_rotate[OF assms(1), of rnd today num] by (simp only: m)
  have n: "0 < ?n" using assms(1) by simp
  have inj: "inj_on (\<lambda>i. nat ((?s + int i) mod ?n)) {0..<nat num}"
  proof (rule inj_onI)
    fix i j assume i: "i \<in> {0..<nat num}" and j: "j \<in> {0..<nat num}"
      and e: "nat ((?s + int i) mod ?n) = nat ((?s + int j) mod ?n)"
    from n have "0 \<le> (?s + int i) mod ?n" "0 \<le> (?s + int j) mod ?n" by simp_all
    with e have "(?s + int i) mod ?n = (?s + int j) mod ?n" by linarith
    moreover have "nat num \<le> length all_files" using assms(4) by simp
    ultimately show "i = j" using i j window_inj[of i "nat num" j "length all_files" ?s] by simp
  qed
  have rng: "\<And>i. nat ((?s + int i) mod ?n) < length all_files"
    using n by (simp add: nat_less_iff)
  have "distinct (map (\<lambda>i. nat ((?s + int i) mod ?n)) [0..<nat num])"
    using inj by (simp add: distinct_map)
  then have "distinct (map (\<lambda>k. all_files ! k) (map (\<lambda>i. nat ((?s + int i) mod ?n)) [0..<nat num]))"
    using assms(2) rng by (subst distinct_map) (auto simp: inj_on_def nth_eq_iff_index_eq)
  then have d: "distinct ?res" by (simp add: comp_def)
  have first: "\<exists>res. select_files Rotate rnd today all_files num = Inr res
            \<and> length res = nat num \<and> distinct res
            \<and> (\<forall>i<nat num. res ! i = ?f i)"
    using sel d by simp
  have d0: "today_index \<lparr>year = 2020, month = 1, day = 1\<rparr> = 0" by (simp add: date_defs)
  have d1: "today_index \<lparr>year = 2020, month = 1, day = 2\<rparr> = 1" by (simp add: date_defs)
  have up: "[0..<2] = [0, Suc 0]" by (simp add: upt_rec)
  have e0: "select_files Rotate rnd \<lparr>year = 2020, month = 1, day = 1\<rparr> [p0, p1, p2, p3, p4] 2
        = Inr [p0, p1]"
    by (simp add: select_rotate d0 up)
  have e1: "select_files Rotate rnd \<lparr>year = 2020, month = 1, day = 2\<rparr> [p0, p1, p2, p3, p4] 2
        = Inr [p2, p3]"
    by (simp add: select_rotate d1 up)
  show ?thesis using first d0 d1 e0 e1 by blast
qed

theorem rotate_selection_window_witness:
  "\<exists>res. select_files Rotate zero_draws \<lparr>year = 2021, month = 3, day = 7\<rparr>
            [''a.mp3'', ''b.mp3'', ''c.mp3'', ''d.mp3'', ''e.mp3''] 3 = Inr res
         \<and> length res = 3 \<and> distinct res \<and> res ! 0 = ''d.mp3'' \<and> res ! 1 = ''e.mp3''
         \<and> res ! 2 = ''a.mp3''"
proof -
  let ?pool = "[''a.mp3'', ''b.mp3'', ''c.mp3'', ''d.mp3'', ''e.mp3'']"
  let ?d = "\<lparr>year = 2021, month = 3, day = 7\<rparr>"
  have ti: "today_index ?d = 431" by (simp add: date_defs)
  have h: "?pool \<noteq> []" "distinct ?pool" "(0::int) < 3" "(3::int) \<le> int (length ?pool)"
    by simp_all
  from rotate_selection_window[OF h, of zero_draws ?d, THEN conjunct1]
  obtain res where r: "select_files Rotate zero_draws ?d ?pool 3 = Inr res"
    "length res = nat 3" "distinct res"
    "\<forall>i<nat 3. res ! i = ?pool ! nat (((today_index ?d * 3) mod int (length ?pool) + int i)
                                    mod int (length ?pool))"
    by blast
  have "res ! 0 = ''d.mp3''" "res ! 1 = ''e.mp3''" "res ! 2 = ''a.mp3''"
    using r(4)[rule_format, of 0] r(4)[rule_format, of 1] r(4)[rule_format, of 2]
    by (simp_all add: ti)
  with r show ?thesis by auto
qed

text \<open>
  Claim C4. For a date strictly before 2020-01-01 the day index is negative. The start
  index that line 88 computes, \<^verbatim>\<open>(today_index * take) % n\<close>, is the floor modulo: it
  lies in \<open>[0, N)\<close>. Every subscript \<^verbatim>\<open>(start + i) % n\<close> of line 91 lies in
  \<open>[0, N)\<close> too, so no element is read at a negative index, and the selection is the
  circular window from the start. On 2019-12-31 with \<open>N = 5\<close> and \<open>take = 2\<close> the
  start is \<open>(-2) % 5 = 3\<close>.
\<close>

theorem rotate_before_epoch:
  assumes "toordinal today < epoch" and "all_files \<noteq> []"
    and "0 < num" and "num \<le> int (length all_files)"
  shows "today_index today < 0
    \<and> (\<exists>start.
          py_mod (today_index today * min num (int (length all_files))) (int (length all_files))
            = Inr start
          \<and> 0 \<le> start \<and> start < int (length all_files)
          \<and> (\<forall>i \<in> set (py_range (min num (int (length all_files)))).
                \<exists>k. py_mod (start + i) (int (length all_files)) = Inr k
                  \<and> 0 \<le> k \<and> k < int (length all_files)
                  \<and> getitem all_files k = Inr (all_files ! nat k))
          \<and> rotate all_files (min num (int (length all_files))) today
              = rotate_loop all_files (int (length all_files)) start
                  (py_range (min num (int (length all_files)))) []
          \<and> select_files Rotate rnd today all_files num
              = Inr (map (\<lambda>i. all_files ! ((nat start + i) mod length all_files))
                      [0..<nat num]))
    \<and> today_index \<lparr>year = 2019, month = 12, day = 31\<rparr> = - 1
    \<and> py_mod (today_index \<lparr>year = 2019, month = 12, day = 31\<rparr> * 2) 5 = Inr 3
    \<and> select_files Rotate rnd \<lparr>year = 2019, month = 12, day = 31\<rparr> [p0, p1, p2, p3, p4] 2
        = Inr [p3, p4]"
proof -
  let ?n = "int (length all_files)"
  let ?s = "(today_index today * num) mod ?n"
  have n: "0 < ?n" using assms(2) by simp
  have neg: "today_index today < 0" using assms(1) by (simp add: today_index_def)
  have s0: "0 \<le> ?s" and s1: "?s < ?n" using n by simp_all
  have m: "min num ?n = num" using assms(4) by simp
  have st: "py_mod (today_index today * min num ?n) ?n = Inr ?s"
    using n by (simp add: py_mod_def m)
  have sub: "\<forall>i \<in> set (py_range (min num ?n)).
      \<exists>k. py_mod (?s + i) ?n = Inr k \<and> 0 \<le> k \<and> k < ?n
        \<and> getitem all_files k = Inr (all_files ! nat k)"
  proof
    fix i assume "i \<in> set (py_range (min num ?n))"
    have "py_mod (?s + i) ?n = Inr ((?s + i) mod ?n)" using n by (simp add: py_mod_def)
    moreover have k0: "0 \<le> (?s + i) mod ?n" and k1: "(?s + i) mod ?n < ?n" using n by simp_all
    moreover have "getitem all_files ((?s + i) mod ?n) = Inr (all_files ! nat ((?s + i) mod ?n))"
      using k0 k1 by (rule getitem_in_range)
    ultimately show "\<exists>k. py_mod (?s + i) ?n = Inr k \<and> 0 \<le> k \<and> k < ?n
        \<and> getitem all_files k = Inr (all_files ! nat k)" by blast
  qed
  have rot: "rotate all_files (min num ?n) today
      = rotate_loop all_files ?n ?s (py_range (min num ?n)) []"
    using n by (simp add: rotate_def py_mod_def Let_def m)
  have idx: "nat ((?s + int i) mod ?n) = (nat ?s + i) mod length all_files" for i
  proof -
    have "?s + int i = int (nat ?s + i)" using s0 by simp
    then have "(?s + int i) mod ?n = int ((nat ?s + i) mod length all_files)"
      by (simp only: zmod_int)
    then show ?thesis by simp
  qed
  have sel: "select_files Rotate rnd today all_files num =
        Inr (map (\<lambda>i. all_files ! ((nat ?s + i) mod length all_files)) [0..<nat num])"
    using select_rotate[OF assms(2), of rnd today num] by (simp only: m idx)
  have d: "today_index \<lparr>year = 2019, month = 12, day = 31\<rparr> = - 1" by (simp add: date_defs)
  have pm: "py_mod (today_index \<lparr>year = 2019, month = 12, day = 31\<rparr> * 2) 5 = Inr 3"
    by (simp add: d py_mod_def)
  have up: "[0..<2] = [0, Suc 0]" by (simp add: upt_rec)
  have e: "select_files Rotate rnd \<lparr>year = 2019, month = 12, day = 31\<rparr> [p0, p1, p2, p3, p4] 2
        = Inr [p3, p4]"
    by (simp add: select_rotate d up)
  from st s0 s1 sub rot sel
  have main: "\<exists>start.
          py_mod (today_index today * min num ?n) ?n = Inr start
          \<and> 0 \<le> start \<and> start < ?n
          \<and> (\<forall>i \<in> set (py_range (min num ?n)).
                \<exists>k. py_mod (start + i) ?n = Inr k \<and> 0 \<le> k \<and> k < ?n
                  \<and> getitem all_files k = Inr (all_files ! nat k))
          \<and> rotate all_files (min num ?n) today
              = rotate_loop all_files ?n start (py_range (min num ?n)) []
          \<and> select_files Rotate rnd today all_files num
              = Inr (map (\<lambda>i. all_files ! ((nat start + i) mod length all_files))
                      [0..<nat num])"
    by (intro exI[of _ ?s] conjI)
  show ?thesis using neg main d pm e by (intro conjI)
qed

theorem rotate_before_epoch_witness:
  "today_index \<lparr>year = 2019, month = 12, day = 30\<rparr> < 0
    \<and> py_mod (today_index \<lparr>year = 2019, month = 12, day = 30\<rparr> * min 2 3) 3 = Inr 2
    \<and> py_mod (2 + 1) 3 = Inr 0
    \<and> getitem [''a.mp3'', ''b.mp3'', ''c.mp3''] 0 = Inr ''a.mp3''
    \<and> select_files Rotate zero_draws \<lparr>year = 2019, month = 12, day = 30\<rparr>
          [''a.mp3'', ''b.mp3'', ''c.mp3''] 2 = Inr [''c.mp3'', ''a.mp3'']"
proof -
  let ?pool = "[''a.mp3'', ''b.mp3'', ''c.mp3'']"
  let ?d = "\<lparr>year = 2019, month = 12, day = 30\<rparr>"
  have ti: "today_index ?d = - 2" by (simp add: date_defs)
  have h: "toordinal ?d < epoch" "?pool \<noteq> []" "(0::int) < 2" "(2::int) \<le> int (length ?pool)"
    by (simp_all add: date_defs)
  have up: "[0..<2] = [0, Suc 0]" by (simp add: upt_rec)
  note w = rotate_before_epoch[OF h, of zero_draws]
  from w[THEN conjunct2, THEN conjunct1] obtain start where
    s: "py_mod (today_index ?d * min 2 (int (length ?pool))) (int (length ?pool)) = Inr start"
    and sub: "\<forall>i \<in> set (py_range (min 2 (int (length ?pool)))).
                \<exists>k. py_mod (start + i) (int (length ?pool)) = Inr k
                  \<and> 0 \<le> k \<and> k < int (length ?pool)
                  \<and> getitem ?pool k = Inr (?pool ! nat k)"
    and sel: "select_files Rotate zero_draws ?d ?pool 2
              = Inr (map (\<lambda>i. ?pool ! ((nat start + i) mod length ?pool)) [0..<nat 2])"
    by blast
  from s have start: "start = 2" by (simp add: ti py_mod_def)
  have "(1::int) \<in> set (py_range (min 2 (int (length ?pool))))" by (simp add: py_range_def up)
  with sub obtain k where k: "py_mod (start + 1) (int (length ?pool)) = Inr k"
    "getitem ?pool k = Inr (?pool ! nat k)" by blast
  from k(1) have k0: "k = 0" by (simp add: start py_mod_def)
  have "py_mod (2 + 1) 3 = Inr 0" using k(1) by (simp add: start k0)
  moreover have "getitem ?pool 0 = Inr ''a.mp3''" using k(2) by (simp add: k0)
  moreover have "py_mod (today_index ?d * min 2 3) 3 = Inr 2" using s by (simp add: start)
  moreover have "select_files Rotate zero_draws ?d ?pool 2 = Inr [''c.mp3'', ''a.mp3'']"
    using sel by (simp add: start up)
  ultimately show ?thesis using w[THEN conjunct1] by blast
qed

lemma select_rotate_all:
  assumes "all_files \<noteq> []" and "int (length all_files) \<le> num"
  shows "select_files Rotate rnd today all_files num = Inr all_files"
proof -
  let ?n = "int (length all_files)"
  have m: "min num ?n = ?n" using assms(2) by simp
  have "map (\<lambda>i. all_files ! nat (((today_index today * ?n) mod ?n + int i) mod ?n))
          [0..<nat ?n] = map (\<lambda>i. all_files ! i) [0..<length all_files]"
    by (rule map_cong) simp_all
  then show ?thesis
    using select_rotate[OF assms(1), of rnd today num] by (simp only: m map_nth)
qed

lemma select_random:
  "select_files Random rnd today all_files num =
     sample rnd all_files (min num (int (length all_files)))"
  by (simp add: select_files_def Let_def)

text \<open>
  Claim C8. When the requested number is at least the pool size, \<open>take = N\<close> and the
  rotate-mode start index \<open>(dayIndex * N) mod N\<close> is 0 on every date: the selection is
  the whole pool in its sorted order, whatever the date.
\<close>

theorem rotate_take_all_start_zero:
  assumes "all_files \<noteq> []" and "int (length all_files) \<le> num"
  shows "min num (int (length all_files)) = int (length all_files)
    \<and> (today_index today * min num (int (length all_files))) mod int (length all_files) = 0
    \<and> select_files Rotate rnd today all_files num = Inr all_files"
  using assms select_rotate_all[OF assms, of rnd today] by simp

theorem rotate_take_all_start_zero_witness:
  "(today_index \<lparr>year = 2024, month = 2, day = 29\<rparr> * min 10 3) mod 3 = 0
    \<and> select_files Rotate zero_draws \<lparr>year = 2024, month = 2, day = 29\<rparr>
          [''a.mp3'', ''b.mp3'', ''c.mp3''] 10 = Inr [''a.mp3'', ''b.mp3'', ''c.mp3'']"
proof -
  have h: "[''a.mp3'', ''b.mp3'', ''c.mp3''] \<noteq> []"
    "int (length [''a.mp3'', ''b.mp3'', ''c.mp3'']) \<le> 10" by simp_all
  from rotate_take_all_start_zero[OF h, of "\<lparr>year = 2024, month = 2, day = 29\<rparr>" zero_draws]
  show ?thesis by simp
qed

text \<open>
  Claim C7. When the requested number exceeds the pool size \<open>N\<close>, \<open>take = N\<close> and both
  modes return the entire pool without error: rotate mode in the pool's order, random
  mode in the order of the draws (a permutation of the pool).
\<close>

theorem select_more_than_pool:
  assumes "all_files \<noteq> []" and "int (length all_files) < num"
  shows "min num (int (length all_files)) = int (length all_files)
    \<and> select_files Rotate rnd today all_files num = Inr all_files
    \<and> (\<exists>res. select_files Random rnd today all_files num = Inr res
           \<and> length res = length all_files \<and> mset res = mset all_files)"
proof -
  have le: "int (length all_files) \<le> num" using assms(2) by simp
  then have m: "min num (int (length all_files)) = int (length all_files)" by simp
  obtain res where r: "sample rnd all_files (int (length all_files)) = Inr res"
    "mset res = mset all_files" using sample_full by blast
  from r(2) have "length res = length all_files" by (rule mset_eq_length)
  with r m show ?thesis using select_rotate_all[OF assms(1) le, of rnd today]
    by (simp add: select_random)
qed

theorem select_more_than_pool_witness:
  "select_files Rotate zero_draws \<lparr>year = 2024, month = 2, day = 29\<rparr>
       [''a.mp3'', ''b.mp3'', ''c.mp3''] 4 = Inr [''a.mp3'', ''b.mp3'', ''c.mp3'']
   \<and> select_files Random zero_draws \<lparr>year = 2024, month = 2, day = 29\<rparr>
       [''a.mp3'', ''b.mp3'', ''c.mp3''] 4 = Inr [''a.mp3'', ''c.mp3'', ''b.mp3'']"
proof -
  have h: "[''a.mp3'', ''b.mp3'', ''c.mp3''] \<noteq> []"
    "int (length [''a.mp3'', ''b.mp3'', ''c.mp3'']) < 4" by simp_all
  have up: "[0..<3] = [0, Suc 0, Suc (Suc 0)]" by (simp add: upt_rec)
  have "select_files Random zero_draws \<lparr>year = 2024, month = 2, day = 29\<rparr>
       [''a.mp3'', ''b.mp3'', ''c.mp3''] 4 = Inr [''a.mp3'', ''c.mp3'', ''b.mp3'']"
    by (simp add: select_random sample_def up zero_draws_def Let_def)
  with select_more_than_pool[OF h, of zero_draws "\<lparr>year = 2024, month = 2, day = 29\<rparr>"]
  show ?thesis by simp
qed

text \<open>
  Claim C3, as stated, fails in random mode: a negative number is passed on to
  \<^verbatim>\<open>random.sample\<close>, which raises \<^verbatim>\<open>ValueError\<close>.
\<close>

theorem select_nonpositive_counterexample:
  "[''a.mp3''] \<noteq> [] \<and> (- 1 :: int) \<le> 0
   \<and> select_files Random zero_draws \<lparr>year = 2020, month = 1, day = 1\<rparr> [''a.mp3''] (- 1)
       = Inl ValueError"
  by (simp add: select_random sample_def)

text \<open>
  Claim C3, amended. For a non-empty pool and a requested number \<open>\<le> 0\<close>: rotate mode
  selects no items, without error; random mode selects no items when the number is 0,
  and raises \<^verbatim>\<open>ValueError\<close> when it is negative.
\<close>

theorem select_nonpositive:
  assumes "all_files \<noteq> []" and "num \<le> 0"
  shows "select_files Rotate rnd today all_files num = Inr []
    \<and> (num = 0 \<longrightarrow> select_files Random rnd today all_files num = Inr [])
    \<and> (num < 0 \<longrightarrow> select_files Random rnd today all_files num = Inl ValueError)"
proof -
  have m: "min num (int (length all_files)) = num" using assms(2) by simp
  have "select_files Rotate rnd today all_files num = Inr []"
    using select_rotate[OF assms(1), of rnd today num] assms(2) by (simp only: m) simp
  moreover have "num = 0 \<longrightarrow> select_files Random rnd today all_files num = Inr []"
    by (simp add: select_random sample_def)
  moreover have "num < 0 \<longrightarrow> select_files Random rnd today all_files num = Inl ValueError"
    by (simp add: select_random sample_def)
  ultimately show ?thesis by blast
qed

theorem select_nonpositive_witness:
  "select_files Rotate zero_draws \<lparr>year = 2020, month = 1, day = 5\<rparr> [''a.mp3'', ''b.mp3''] (- 3)
     = Inr []
   \<and> select_files Random zero_draws \<lparr>year = 2020, month = 1, day = 5\<rparr> [''a.mp3'', ''b.mp3''] (- 3)
     = Inl ValueError
   \<and> select_files Random zero_draws \<lparr>year = 2020, month = 1, day = 5\<rparr> [''a.mp3'', ''b.mp3''] 0
     = Inr []"
proof -
  have h: "[''a.mp3'', ''b.mp3''] \<noteq> []" "(- 3 :: int) \<le> 0" "(0::int) \<le> 0" by simp_all
  from select_nonpositive[OF h(1,2), of zero_draws "\<lparr>year = 2020, month = 1, day = 5\<rparr>"]
    select_nonpositive[OF h(1,3), of zero_draws "\<lparr>year = 2020, month = 1, day = 5\<rparr>"]
  show ?thesis by simp
qed

section \<open>Properties of the titles\<close>

lemma rfind_below_absent:
  "n \<le> length p \<Longrightarrow> c \<notin> set p \<Longrightarrow> rfind_below p c n = - 1"
  by (induction n) auto

lemma rfind_below_last:
  assumes "c \<notin> set ys" and "k \<le> length ys"
  shows "rfind_below (xs @ c # ys) c (length xs + Suc k) = int (length xs)"
  using assms(2)
proof (induction k)
  case 0
  show ?case by simp
next
  case (Suc k)
  then have "ys ! k \<in> set ys" by simp
  with assms(1) have "ys ! k \<noteq> c" by metis
  moreover have "(xs @ c # ys) ! (length xs + Suc k) = ys ! k"
    by (simp add: nth_append)
  ultimately show ?case using Suc by simp
qed

lemma rfind_absent: "c \<notin> set p \<Longrightarrow> rfind p c = - 1"
  by (simp add: rfind_def rfind_below_absent)

lemma rfind_last: "c \<notin> set ys \<Longrightarrow> rfind (xs @ c # ys) c = int (length xs)"
  using rfind_below_last[of c ys "length ys" xs] by (simp add: rfind_def)

lemma splitext_loop_eq:
  "0 \<le> f \<Longrightarrow> splitext_loop p f d =
     (if \<exists>k. f \<le> k \<and> k < d \<and> p ! nat k \<noteq> CHR ''.''
      then Some (take (nat d) p, drop (nat d) p) else None)"
proof (induction p f d rule: splitext_loop.induct)
  case (1 p f d)
  show ?case
  proof (cases "f < d")
    case False
    then show ?thesis by (subst splitext_loop.simps) auto
  next
    case True
    show ?thesis
    proof (cases "p ! nat f \<noteq> CHR ''.''")
      case True
      with \<open>f < d\<close> have "\<exists>k. f \<le> k \<and> k < d \<and> p ! nat k \<noteq> CHR ''.''" by auto
      with True \<open>f < d\<close> show ?thesis by (subst splitext_loop.simps) simp
    next
      case False
      have "(\<exists>k. f \<le> k \<and> k < d \<and> p ! nat k \<noteq> CHR ''.'')
          \<longleftrightarrow> (\<exists>k. f + 1 \<le> k \<and> k < d \<and> p ! nat k \<noteq> CHR ''.'')"
      proof
        assume "\<exists>k. f \<le> k \<and> k < d \<and> p ! nat k \<noteq> CHR ''.''"
        then obtain k where k: "f \<le> k" "k < d" "p ! nat k \<noteq> CHR ''.''" by blast
        with False have "k \<noteq> f" by auto
        with k have "f + 1 \<le> k" by simp
        with k show "\<exists>k. f + 1 \<le> k \<and> k < d \<and> p ! nat k \<noteq> CHR ''.''" by blast
      next
        assume "\<exists>k. f + 1 \<le> k \<and> k < d \<and> p ! nat k \<noteq> CHR ''.''"
        then obtain k where "f + 1 \<le> k" "k < d" "p ! nat k \<noteq> CHR ''.''" by blast
        moreover from this have "f \<le> k" by simp
        ultimately show "\<exists>k. f \<le> k \<and> k < d \<and> p ! nat k \<noteq> CHR ''.''" by blast
      qed
      moreover have "splitext_loop p f d = splitext_loop p (f + 1) d"
        using False \<open>f < d\<close> by (subst splitext_loop.simps) simp
      moreover have "splitext_loop p (f + 1) d =
         (if \<exists>k. f + 1 \<le> k \<and> k < d \<and> p ! nat k \<noteq> CHR ''.''
          then Some (take (nat d) p, drop (nat d) p) else None)"
        using "1.IH"[OF \<open>f < d\<close>] False "1.prems" by simp
      ultimately show ?thesis by simp
    qed
  qed
qed

lemma nondot_prefix:
  "(\<exists>k. 0 \<le> k \<and> k < int (length xs) \<and> (xs @ ys) ! nat k \<noteq> CHR ''.'')
     \<longleftrightarrow> filter (\<lambda>c. c \<noteq> CHR ''.'') xs \<noteq> []"
proof
  assume "\<exists>k. 0 \<le> k \<and> k < int (length xs) \<and> (xs @ ys) ! nat k \<noteq> CHR ''.''"
  then obtain k where k: "0 \<le> k" "k < int (length xs)" "(xs @ ys) ! nat k \<noteq> CHR ''.''" by blast
  then have "nat k < length xs" by simp
  with k(3) have "xs ! nat k \<in> set xs" "xs ! nat k \<noteq> CHR ''.''" by (simp_all add: nth_append)
  then show "filter (\<lambda>c. c \<noteq> CHR ''.'') xs \<noteq> []" by (auto simp: filter_empty_conv)
next
  assume "filter (\<lambda>c. c \<noteq> CHR ''.'') xs \<noteq> []"
  then obtain c where "c \<in> set xs" "c \<noteq> CHR ''.''" by (auto simp: filter_empty_conv)
  then obtain i where "i < length xs" "xs ! i = c" by (auto simp: in_set_conv_nth)
  with \<open>c \<noteq> CHR ''.''\<close> have "0 \<le> int i \<and> int i < int (length xs) \<and> (xs @ ys) ! nat (int i) \<noteq> CHR ''.''"
    by (simp add: nth_append)
  then show "\<exists>k. 0 \<le> k \<and> k < int (length xs) \<and> (xs @ ys) ! nat k \<noteq> CHR ''.''" by blast
qed

lemma splitext_stem:
  assumes "CHR ''/'' \<notin> set fn"
  shows "fst (splitext fn) =
    (if filter (\<lambda>c. c \<noteq> CHR ''.'') (spec_stem fn) \<noteq> [] then spec_stem fn else fn)"
proof (cases "CHR ''.'' \<in> set fn")
  case False
  then show ?thesis using assms
    by (simp add: splitext_def spec_stem_def rfind_absent)
next
  case True
  then obtain xs ys where fn: "fn = xs @ CHR ''.'' # ys" and ys: "CHR ''.'' \<notin> set ys"
    by (auto dest: split_list_last)
  have sep: "rfind fn CHR ''/'' = - 1" using assms by (rule rfind_absent)
  have dot: "rfind fn CHR ''.'' = int (length xs)" unfolding fn using ys by (rule rfind_last)
  have loop: "splitext_loop fn 0 (int (length xs)) =
      (if filter (\<lambda>c. c \<noteq> CHR ''.'') xs \<noteq> [] then Some (xs, CHR ''.'' # ys) else None)"
    using splitext_loop_eq[of 0 fn "int (length xs)"] nondot_prefix[of xs "CHR ''.'' # ys"]
    by (simp add: fn)
  have "dropWhile (\<lambda>c. c \<noteq> CHR ''.'') (rev ys @ CHR ''.'' # rev xs)
      = dropWhile (\<lambda>c. c \<noteq> CHR ''.'') (CHR ''.'' # rev xs)"
    by (rule dropWhile_append2) (use ys in auto)
  then have "dropWhile (\<lambda>c. c \<noteq> CHR ''.'') (rev ys @ CHR ''.'' # rev xs) = CHR ''.'' # rev xs"
    by simp
  then have "dropWhile (\<lambda>c. c \<noteq> CHR ''.'') (rev fn) = CHR ''.'' # rev xs"
    by (simp add: fn)
  then have stem: "rev (drop 1 (dropWhile (\<lambda>c. c \<noteq> CHR ''.'') (rev fn))) = xs" by simp
  show ?thesis
    using True by (simp add: splitext_def sep dot loop spec_stem_def stem del: One_nat_def)
qed

lemma strip_left_eq:
  "i \<le> length s \<Longrightarrow> strip_left s i = i + length (takeWhile isspace (drop i s))"
proof (induction s i rule: strip_left.induct)
  case (1 s i)
  show ?case
  proof (cases "i < length s \<and> isspace (s ! i)")
    case True
    then have d: "drop i s = s ! i # drop (Suc i) s" by (simp add: Cons_nth_drop_Suc)
    from True "1.IH" have "strip_left s (Suc i) = Suc i + length (takeWhile isspace (drop (Suc i) s))"
      by simp
    with True show ?thesis by (subst strip_left.simps) (simp add: d)
  next
    case False
    then have "takeWhile isspace (drop i s) = []"
      by (cases "i < length s") (simp_all add: Cons_nth_drop_Suc[symmetric])
    with False show ?thesis by (subst strip_left.simps) auto
  qed
qed

lemma strip_right_eq:
  "i \<le> j \<Longrightarrow> j \<le> length s \<Longrightarrow>
     strip_right s i j = i + length (dropWhile isspace (rev (take (j - i) (drop i s))))"
proof (induction s i j rule: strip_right.induct)
  case (1 s i j)
  show ?case
  proof (cases "i < j")
    case False
    with "1.prems" show ?thesis by (subst strip_right.simps) simp
  next
    case True
    then obtain m where m: "j - i = Suc m" by (cases "j - i") auto
    then have jm: "j - 1 = i + m" "j - 1 - i = m" "j - Suc i = m" by simp_all
    have "m < length (drop i s)" using m "1.prems" by simp
    then have "take (Suc m) (drop i s) = take m (drop i s) @ [drop i s ! m]"
      by (rule take_Suc_conv_app_nth)
    moreover have "drop i s ! m = s ! (j - 1)" using "1.prems" m jm by simp
    ultimately have seg: "rev (take (j - i) (drop i s)) = s ! (j - 1) # rev (take m (drop i s))"
      by (simp add: m)
    show ?thesis
    proof (cases "isspace (s ! (j - 1))")
      case sp: True
      have "strip_right s i (j - 1) = i + length (dropWhile isspace (rev (take (j - 1 - i) (drop i s))))"
        using "1.IH" True sp "1.prems" by simp
      with True sp show ?thesis by (subst strip_right.simps) (simp add: seg jm)
    next
      case nsp: False
      have "dropWhile isspace (rev (take (j - i) (drop i s))) = rev (take (j - i) (drop i s))"
        using nsp by (simp only: seg dropWhile.simps if_False)
      moreover have "length (rev (take (j - i) (drop i s))) = j - i" using "1.prems" by simp
      ultimately have "i + length (dropWhile isspace (rev (take (j - i) (drop i s)))) = j"
        using True by simp
      moreover have "strip_right s i j = j" using nsp by (subst strip_right.simps) simp
      ultimately show ?thesis by simp
    qed
  qed
qed

lemma strip_trim: "strip s = spec_trim s"
proof -
  define t where "t = dropWhile isspace s"
  define i where "i = length (takeWhile isspace s)"
  have i: "strip_left s 0 = i" using strip_left_eq[of 0 s] by (simp add: i_def)
  have il: "i \<le> length s" unfolding i_def by (rule length_takeWhile_le)
  have dr: "drop i s = t" unfolding i_def t_def by (simp add: dropWhile_eq_drop)
  have "take (length s - i) t = t" using dr by (metis length_drop order_refl take_all)
  then have j: "strip_right s i (length s) = i + length (dropWhile isspace (rev t))"
    using strip_right_eq[OF il, of s] by (simp add: dr)
  have "rev t = takeWhile isspace (rev t) @ dropWhile isspace (rev t)" by simp
  then have "t = rev (dropWhile isspace (rev t)) @ rev (takeWhile isspace (rev t))"
    by (metis rev_append rev_rev_ident)
  then have "take (length (dropWhile isspace (rev t))) t = rev (dropWhile isspace (rev t))"
    by (metis append_eq_conv_conj length_rev)
  then show ?thesis by (simp add: strip_def i j dr spec_trim_def t_def Let_def)
qed

lemma replace_both:
  "replace (replace s CHR ''_'' CHR '' '') CHR ''-'' CHR '' ''
     = map (\<lambda>c. if c = CHR ''_'' \<or> c = CHR ''-'' then CHR '' '' else c) s"
  by (simp add: replace_def)

text \<open>
  Claim C5, as stated, fails for a name that has only dots before its last dot:
  \<^verbatim>\<open>os.path.splitext\<close> finds no extension in \<^verbatim>\<open>.mp3\<close>, a name that passes the
  filter of the candidates, and the title is the whole name instead of the empty string.
\<close>

theorem sanitize_title_spec_counterexample:
  "CHR ''/'' \<notin> set ''.mp3'' \<and> endswith (lower ''.mp3'') ''.mp3''
   \<and> sanitize_title ''.mp3'' = ''.mp3'' \<and> spec_title ''.mp3'' = []
   \<and> sanitize_title ''.mp3'' \<noteq> spec_title ''.mp3''"
proof -
  have "CHR ''/'' \<notin> set ''.mp3''" by simp
  moreover have "endswith (lower ''.mp3'') ''.mp3''" by code_simp
  moreover have a: "sanitize_title ''.mp3'' = ''.mp3''" by code_simp
  moreover have b: "spec_title ''.mp3'' = []" by code_simp
  moreover have "sanitize_title ''.mp3'' \<noteq> spec_title ''.mp3''" unfolding a b by simp
  ultimately show ?thesis by blast
qed

text \<open>
  Claim C5, amended. For every filename in which a character other than the dot comes
  before the last dot, and for every filename without a dot, the title is the filename
  with its extension dropped, every underscore and hyphen replaced by a space and the
  white space at both ends trimmed, and nothing else is changed: letters keep their case
  and leading digits stay. For a filename with only dots before its last dot (as
  \<^verbatim>\<open>.mp3\<close>) the extension is not dropped: the title is the whole name with the same
  replacements and trimming. \<^verbatim>\<open>My_Song-01.mp3\<close> gives \<^verbatim>\<open>My Song 01\<close> and
  \<^verbatim>\<open>track.mp3\<close> gives \<^verbatim>\<open>track\<close>.
\<close>

theorem sanitize_title_spec_amended:
  "(CHR ''/'' \<notin> set fn \<and> filter (\<lambda>c. c \<noteq> CHR ''.'') (spec_stem fn) \<noteq> []
      \<longrightarrow> sanitize_title fn = spec_title fn)
   \<and> (CHR ''/'' \<notin> set fn \<and> filter (\<lambda>c. c \<noteq> CHR ''.'') (spec_stem fn) = []
      \<longrightarrow> sanitize_title fn =
            spec_trim (map (\<lambda>c. if c = CHR ''_'' \<or> c = CHR ''-'' then CHR '' '' else c) fn))
   \<and> sanitize_title ''My_Song-01.mp3'' = ''My Song 01''
   \<and> sanitize_title ''track.mp3'' = ''track''
   \<and> sanitize_title ''01_Intro-ABC.MP3'' = ''01 Intro ABC''"
proof -
  have "CHR ''/'' \<notin> set fn \<and> filter (\<lambda>c. c \<noteq> CHR ''.'') (spec_stem fn) \<noteq> []
      \<longrightarrow> sanitize_title fn = spec_title fn"
    by (simp add: sanitize_title_def spec_title_def splitext_stem strip_trim replace_both)
  moreover have "CHR ''/'' \<notin> set fn \<and> filter (\<lambda>c. c \<noteq> CHR ''.'') (spec_stem fn) = []
      \<longrightarrow> sanitize_title fn =
            spec_trim (map (\<lambda>c. if c = CHR ''_'' \<or> c = CHR ''-'' then CHR '' '' else c) fn)"
    by (simp add: sanitize_title_def splitext_stem strip_trim replace_both)
  moreover have "sanitize_title ''My_Song-01.mp3'' = ''My Song 01''" by code_simp
  moreover have "sanitize_title ''track.mp3'' = ''track''" by code_simp
  moreover have "sanitize_title ''01_Intro-ABC.MP3'' = ''01 Intro ABC''" by code_simp
  ultimately show ?thesis by blast
qed

theorem sanitize_title_spec_amended_witness:
  "sanitize_title '' a_b-c.tar.gz'' = spec_title '' a_b-c.tar.gz''
   \<and> spec_title '' a_b-c.tar.gz'' = ''a b c.tar''
   \<and> sanitize_title ''..mp3'' = ''..mp3''"
proof -
  have h1: "CHR ''/'' \<notin> set '' a_b-c.tar.gz''
      \<and> filter (\<lambda>c. c \<noteq> CHR ''.'') (spec_stem '' a_b-c.tar.gz'') \<noteq> []"
    by (simp add: spec_stem_def)
  have h2: "CHR ''/'' \<notin> set ''..mp3''
      \<and> filter (\<lambda>c. c \<noteq> CHR ''.'') (spec_stem ''..mp3'') = []"
    by (simp add: spec_stem_def)
  have v: "spec_title '' a_b-c.tar.gz'' = ''a b c.tar''" by code_simp
  have t: "spec_trim (map (\<lambda>c. if c = CHR ''_'' \<or> c = CHR ''-'' then CHR '' '' else c) ''..mp3'')
      = ''..mp3''" by code_simp
  from sanitize_title_spec_amended[of "'' a_b-c.tar.gz''", THEN conjunct1] h1
  have "sanitize_title '' a_b-c.tar.gz'' = spec_title '' a_b-c.tar.gz''" by blast
  moreover from sanitize_title_spec_amended[of "''..mp3''", THEN conjunct2, THEN conjunct1] h2
  have "sanitize_title ''..mp3'' = ''..mp3''" unfolding t by blast
  ultimately show ?thesis using v by blast
qed

section \<open>Properties of the feed document\<close>

lemma write_items_blocks:
  "write_items items clock t f =
     f @ concat (map (\<lambda>k. spec_item_block (items ! k) (clock (t + k))) [0..<length items])"
proof (induction items arbitrary: t f)
  case Nil
  show ?case by simp
next
  case (Cons it items)
  have "[0..<length (it # items)] = 0 # map Suc [0..<length items]"
    by (simp add: upt_conv_Cons map_Suc_upt del: upt_Suc)
  then have "map (\<lambda>k. spec_item_block ((it # items) ! k) (clock (t + k))) [0..<length (it # items)]
      = spec_item_block it (clock t)
        # map (\<lambda>k. spec_item_block (items ! k) (clock (Suc t + k))) [0..<length items]"
    by (simp add: comp_def)
  then show ?case
    by (simp add: Cons.IH Let_def spec_item_block_def spec_guid_def spec_enclosure_def)
qed

lemma build_feed_blocks:
  "build_feed items channel_title channel_link channel_description clock =
     spec_channel_head channel_title channel_link channel_description (clock 0)
     @ concat (map (\<lambda>k. spec_item_block (items ! k) (clock (Suc k))) [0..<length items])
     @ spec_channel_tail"
  by (simp add: build_feed_def Let_def write_items_blocks spec_channel_head_def
      spec_channel_tail_def)

text \<open>
  Claim C6. The rendered document is the channel's head, then exactly one \<^verbatim>\<open><item>\<close>
  block per item, in the order of the items, then the closing tags. In each block the
  GUID is the item's URL, a \<^verbatim>\<open>#\<close> and the raw filename, with
  \<^verbatim>\<open>isPermaLink="false"\<close>, and the enclosure carries the URL, the byte length and the
  type \<^verbatim>\<open>audio/mpeg\<close>. The document of the single item \<^verbatim>\<open>a.mp3\<close> of 1234 bytes at
  \<^verbatim>\<open>https://host/a.mp3\<close> contains the two elements of the claim.
\<close>

theorem build_feed_items:
  \<open>build_feed items channel_title channel_link channel_description clock =
     spec_channel_head channel_title channel_link channel_description (clock 0)
     @ concat (map (\<lambda>k. spec_item_block (items ! k) (clock (Suc k))) [0..<length items])
     @ spec_channel_tail
   \<and> sublist (spec_guid it) (spec_item_block it pubdate)
   \<and> sublist (spec_enclosure it) (spec_item_block it pubdate)
   \<and> spec_guid \<lparr>item_filename = ''a.mp3'', item_title = ''a'', item_length = ''1234'',
                 item_url = ''https://host/a.mp3''\<rparr>
       = ''<guid isPermaLink="false">https://host/a.mp3#a.mp3</guid>''
   \<and> spec_enclosure \<lparr>item_filename = ''a.mp3'', item_title = ''a'', item_length = ''1234'',
                 item_url = ''https://host/a.mp3''\<rparr>
       = ''<enclosure url="https://host/a.mp3" length="1234" type="audio/mpeg" />''
   \<and> build_feed [\<lparr>item_filename = ''a.mp3'', item_title = ''a'', item_length = ''1234'',
                   item_url = ''https://host/a.mp3''\<rparr>]
         channel_title channel_link channel_description clock
       = spec_channel_head channel_title channel_link channel_description (clock 0)
         @ ''    <item>\<newline>''
         @ ''      <title>a</title>\<newline>''
         @ ''      <pubDate>'' @ clock 1 @ ''</pubDate>\<newline>''
         @ ''      <guid isPermaLink="false">https://host/a.mp3#a.mp3</guid>\<newline>''
         @ ''      <enclosure url="https://host/a.mp3" length="1234" type="audio/mpeg" />\<newline>''
         @ ''    </item>\<newline>''
         @ spec_channel_tail\<close>
proof -
  have g: "sublist (spec_guid it) (spec_item_block it pubdate)"
  proof -
    have eq: "spec_item_block it pubdate =
       (''    <item>\<newline>'' @ ''      <title>'' @ item_title it @ ''</title>\<newline>''
         @ ''      <pubDate>'' @ pubdate @ ''</pubDate>\<newline>'' @ ''      '')
       @ spec_guid it
       @ (''\<newline>'' @ ''      '' @ spec_enclosure it @ ''\<newline>'' @ ''    </item>\<newline>'')"
      by (simp add: spec_item_block_def)
    show ?thesis unfolding eq by (rule sublist_appendI)
  qed
  have e: "sublist (spec_enclosure it) (spec_item_block it pubdate)"
  proof -
    have eq: "spec_item_block it pubdate =
       (''    <item>\<newline>'' @ ''      <title>'' @ item_title it @ ''</title>\<newline>''
         @ ''      <pubDate>'' @ pubdate @ ''</pubDate>\<newline>'' @ ''      ''
         @ spec_guid it @ ''\<newline>'' @ ''      '')
       @ spec_enclosure it
       @ (''\<newline>'' @ ''    </item>\<newline>'')"
      by (simp add: spec_item_block_def)
    show ?thesis unfolding eq by (rule sublist_appendI)
  qed
  show ?thesis
    by (intro conjI, rule build_feed_blocks, rule g, rule e)
      (simp_all add: spec_guid_def spec_enclosure_def build_feed_blocks spec_item_block_def)
qed

section \<open>Properties of the run\<close>

lemma copy_loop_fields:
  "map item_filename (fst (copy_loop chosen mp3_dir out_dir site_url fs items))
     = map item_filename items @ chosen
   \<and> map item_title (fst (copy_loop chosen mp3_dir out_dir site_url fs items))
     = map item_title items @ map sanitize_title chosen
   \<and> map item_url (fst (copy_loop chosen mp3_dir out_dir site_url fs items))
     = map item_url items @ map (\<lambda>fn. site_url @ ''/'' @ fn) chosen"
  by (induction chosen arbitrary: fs items) (simp_all add: Let_def)

lemma write_file_bound: "fs path \<noteq> None \<Longrightarrow> write_file fs path' name content path \<noteq> None"
  by (auto simp: write_file_def split: option.splits)

lemma copy_loop_bound:
  "fs path \<noteq> None \<Longrightarrow> snd (copy_loop chosen mp3_dir out_dir site_url fs items) path \<noteq> None"
proof (induction chosen arbitrary: fs items)
  case Nil
  then show ?case by simp
next
  case (Cons fn chosen)
  from Cons.prems have "copy2 fs mp3_dir out_dir fn path \<noteq> None"
    unfolding copy2_def by (rule write_file_bound)
  then show ?case using Cons.IH by (simp add: Let_def)
qed

lemma read_write_file:
  "fs path \<noteq> None \<Longrightarrow> read_file (write_file fs path name content) path name = content"
  by (auto simp: read_file_def write_file_def split: option.splits)

lemma makedirs_bound: "makedirs fs path path \<noteq> None"
  by (simp add: makedirs_def)

lemma rstrip_shorter:
  assumes "s \<noteq> []" and "last s \<in> set chars"
  shows "rstrip s chars \<noteq> s"
proof -
  from assms(1) obtain t where t: "rev s = last s # t"
    by (metis hd_rev list.exhaust_sel rev_is_Nil_conv)
  have "length (dropWhile (\<lambda>c. c \<in> set chars) t) \<le> length t" by (rule length_dropWhile_le)
  then have "length (rstrip s chars) < length (rev s)"
    using assms(2) by (simp add: rstrip_def t)
  then show ?thesis by auto
qed

lemma rstrip_end:
  "rstrip s chars = [] \<or> last (rstrip s chars) \<notin> set chars"
proof (cases "dropWhile (\<lambda>c. c \<in> set chars) (rev s) = []")
  case True
  then show ?thesis by (simp add: rstrip_def)
next
  case False
  then have "hd (dropWhile (\<lambda>c. c \<in> set chars) (rev s)) \<notin> set chars"
    by (rule hd_dropWhile)
  with False show ?thesis by (simp add: rstrip_def last_rev)
qed

lemma sublist_link:
  \<open>sublist (''<link>'' @ channel_link @ ''</link>'')
     (build_feed items channel_title channel_link channel_description clock)\<close>
proof -
  have eq: \<open>build_feed items channel_title channel_link channel_description clock =
      (''<?xml version="1.0" encoding="UTF-8"?>\<newline>'' @ ''<rss version="2.0">\<newline>''
        @ ''  <channel>\<newline>'' @ ''    <title>'' @ channel_title @ ''</title>\<newline>'' @ ''    '')
      @ (''<link>'' @ channel_link @ ''</link>'')
      @ (''\<newline>'' @ ''    <description>'' @ channel_description @ ''</description>\<newline>''
        @ ''    <lastBuildDate>'' @ clock 0 @ ''</lastBuildDate>\<newline>''
        @ concat (map (\<lambda>k. spec_item_block (items ! k) (clock (Suc k))) [0..<length items])
        @ spec_channel_tail)\<close>
    by (simp add: build_feed_blocks spec_channel_head_def)
  show ?thesis unfolding eq by (rule sublist_appendI)
qed

lemma main_unfold:
  "main args today rnd clock fs =
     (if \<not> isdir fs (arg_mp3_dir args)
      then (Inl (SystemExit (''mp3 dir not found: '' @ arg_mp3_dir args)), fs)
      else if mp3_files (clean_out_dir fs (arg_out args)) (arg_mp3_dir args) = []
      then (Inl (SystemExit ''No mp3 files found in mp3_dir''), clean_out_dir fs (arg_out args))
      else
        (case select_files (arg_mode args) rnd today
                (mp3_files (clean_out_dir fs (arg_out args)) (arg_mp3_dir args)) (arg_num args) of
           Inl e \<Rightarrow> (Inl e, clean_out_dir fs (arg_out args))
         | Inr chosen \<Rightarrow>
            (Inr (''Wrote ''
                  @ str_nat (length (fst (copy_loop chosen (arg_mp3_dir args) (arg_out args)
                       (rstrip (arg_site_url args) ''/'') (clean_out_dir fs (arg_out args)) [])))
                  @ '' items to '' @ join (arg_out args) ''feed.xml''),
             write_file
               (snd (copy_loop chosen (arg_mp3_dir args) (arg_out args)
                       (rstrip (arg_site_url args) ''/'') (clean_out_dir fs (arg_out args)) []))
               (arg_out args) ''feed.xml''
               (build_feed
                  (fst (copy_loop chosen (arg_mp3_dir args) (arg_out args)
                       (rstrip (arg_site_url args) ''/'') (clean_out_dir fs (arg_out args)) []))
                  (arg_channel_title args) (arg_site_url args) (arg_channel_desc args) clock))))"
  unfolding main_def Let_def case_prod_beta clean_out_dir_def mp3_files_def by (rule refl)

lemma main_success:
  assumes "main args today rnd clock fs = (Inr msg, fs')"
  shows "\<exists>chosen.
      select_files (arg_mode args) rnd today
         (mp3_files (clean_out_dir fs (arg_out args)) (arg_mp3_dir args)) (arg_num args)
        = Inr chosen
      \<and> msg = ''Wrote ''
                  @ str_nat (length (fst (copy_loop chosen (arg_mp3_dir args) (arg_out args)
                       (rstrip (arg_site_url args) ''/'') (clean_out_dir fs (arg_out args)) [])))
                  @ '' items to '' @ join (arg_out args) ''feed.xml''
      \<and> fs' = write_file
               (snd (copy_loop chosen (arg_mp3_dir args) (arg_out args)
                       (rstrip (arg_site_url args) ''/'') (clean_out_dir fs (arg_out args)) []))
               (arg_out args) ''feed.xml''
               (build_feed
                  (fst (copy_loop chosen (arg_mp3_dir args) (arg_out args)
                       (rstrip (arg_site_url args) ''/'') (clean_out_dir fs (arg_out args)) []))
                  (arg_channel_title args) (arg_site_url args) (arg_channel_desc args) clock)"
proof -
  define fs1 where "fs1 = clean_out_dir fs (arg_out args)"
  define all_files where "all_files = mp3_files fs1 (arg_mp3_dir args)"
  note m = main_unfold[of args today rnd clock fs, folded fs1_def, folded all_files_def]
  from assms m have d: "isdir fs (arg_mp3_dir args)"
    by (cases "isdir fs (arg_mp3_dir args)") simp_all
  from assms m d have ne: "all_files \<noteq> []"
    by (cases "all_files = []") simp_all
  from assms m d ne obtain chosen where
    c: "select_files (arg_mode args) rnd today all_files (arg_num args) = Inr chosen"
    by (cases "select_files (arg_mode args) rnd today all_files (arg_num args)") simp_all
  from assms have "fst (main args today rnd clock fs) = Inr msg"
    and "snd (main args today rnd clock fs) = fs'" by simp_all
  then have "msg = ''Wrote ''
                  @ str_nat (length (fst (copy_loop chosen (arg_mp3_dir args) (arg_out args)
                       (rstrip (arg_site_url args) ''/'') fs1 [])))
                  @ '' items to '' @ join (arg_out args) ''feed.xml''"
    and "fs' = write_file
               (snd (copy_loop chosen (arg_mp3_dir args) (arg_out args)
                       (rstrip (arg_site_url args) ''/'') fs1 []))
               (arg_out args) ''feed.xml''
               (build_feed
                  (fst (copy_loop chosen (arg_mp3_dir args) (arg_out args)
                       (rstrip (arg_site_url args) ''/'') fs1 []))
                  (arg_channel_title args) (arg_site_url args) (arg_channel_desc args) clock)"
    unfolding m using d ne c by simp_all
  with c show ?thesis unfolding all_files_def fs1_def by blast
qed

text \<open>
  Claim C9. A successful run has chosen files from the listing of the source directory.
  Its items are the ones that the loop of lines 94 to 105 builds for the chosen files, in
  their order, and the URL of each is the site URL without its trailing slashes (line
  65), a slash and the filename (line 99). The feed is rendered from these items with the
  site URL as it was supplied (line 108), and its \<^verbatim>\<open><link>\<close> element holds that text.
  The base of the item URLs never ends in a slash: when the supplied URL ends in one, the
  text of the link and the base of the item URLs differ.
\<close>

theorem main_link_and_item_urls:
  assumes "main args today rnd clock fs = (Inr msg, fs')"
  shows \<open>\<exists>chosen items.
      select_files (arg_mode args) rnd today
         (mp3_files (clean_out_dir fs (arg_out args)) (arg_mp3_dir args)) (arg_num args)
        = Inr chosen
      \<and> items = fst (copy_loop chosen (arg_mp3_dir args) (arg_out args)
                       (rstrip (arg_site_url args) ''/'') (clean_out_dir fs (arg_out args)) [])
      \<and> map item_filename items = chosen
      \<and> map item_url items = map (\<lambda>fn. rstrip (arg_site_url args) ''/'' @ ''/'' @ fn) chosen
      \<and> msg = ''Wrote '' @ str_nat (length chosen) @ '' items to ''
                @ join (arg_out args) ''feed.xml''
      \<and> read_file fs' (arg_out args) ''feed.xml''
          = build_feed items (arg_channel_title args) (arg_site_url args) (arg_channel_desc args)
              clock
      \<and> sublist (''<link>'' @ arg_site_url args @ ''</link>'')
          (read_file fs' (arg_out args) ''feed.xml'')
      \<and> (rstrip (arg_site_url args) ''/'' = []
          \<or> last (rstrip (arg_site_url args) ''/'') \<noteq> CHR ''/'')
      \<and> (arg_site_url args \<noteq> [] \<and> last (arg_site_url args) = CHR ''/''
          \<longrightarrow> rstrip (arg_site_url args) ''/'' \<noteq> arg_site_url args)\<close>
proof -
  let ?site = "rstrip (arg_site_url args) ''/''"
  let ?fs1 = "clean_out_dir fs (arg_out args)"
  from main_success[OF assms] obtain chosen where
    c: "select_files (arg_mode args) rnd today (mp3_files ?fs1 (arg_mp3_dir args)) (arg_num args)
        = Inr chosen"
    and msg: "msg = ''Wrote ''
        @ str_nat (length (fst (copy_loop chosen (arg_mp3_dir args) (arg_out args) ?site ?fs1 [])))
        @ '' items to '' @ join (arg_out args) ''feed.xml''"
    and fs': "fs' = write_file (snd (copy_loop chosen (arg_mp3_dir args) (arg_out args) ?site ?fs1 []))
              (arg_out args) ''feed.xml''
              (build_feed (fst (copy_loop chosen (arg_mp3_dir args) (arg_out args) ?site ?fs1 []))
                 (arg_channel_title args) (arg_site_url args) (arg_channel_desc args) clock)"
    by blast
  define items where "items = fst (copy_loop chosen (arg_mp3_dir args) (arg_out args) ?site ?fs1 [])"
  have b: "?fs1 (arg_out args) \<noteq> None" unfolding clean_out_dir_def by (rule makedirs_bound)
  have b2: "snd (copy_loop chosen (arg_mp3_dir args) (arg_out args) ?site ?fs1 []) (arg_out args) \<noteq> None"
    using b by (rule copy_loop_bound)
  have r: "read_file fs' (arg_out args) ''feed.xml''
        = build_feed items (arg_channel_title args) (arg_site_url args) (arg_channel_desc args) clock"
    unfolding fs' items_def using b2 by (rule read_write_file)
  have l: "sublist (''<link>'' @ arg_site_url args @ ''</link>'')
          (read_file fs' (arg_out args) ''feed.xml'')"
    unfolding r by (rule sublist_link)
  have f: "map item_filename items = chosen"
    and u: "map item_url items = map (\<lambda>fn. ?site @ ''/'' @ fn) chosen"
    using copy_loop_fields[of chosen "arg_mp3_dir args" "arg_out args" ?site ?fs1 "[]"]
    by (simp_all add: items_def)
  from f have "length items = length chosen" by (metis length_map)
  with msg have msg': "msg = ''Wrote '' @ str_nat (length chosen) @ '' items to ''
      @ join (arg_out args) ''feed.xml''" by (simp add: items_def)
  have e: "?site = [] \<or> last ?site \<noteq> CHR ''/''"
    using rstrip_end[of "arg_site_url args" "''/''"] by simp
  have n: "arg_site_url args \<noteq> [] \<and> last (arg_site_url args) = CHR ''/''
          \<longrightarrow> ?site \<noteq> arg_site_url args"
    using rstrip_shorter[of "arg_site_url args" "''/''"] by simp
  from c items_def f u msg' r l e n show ?thesis by blast
qed

theorem main_link_and_item_urls_witness:
  \<open>\<exists>items.
      map item_filename items = [''a.MP3'', ''b.mp3'']
      \<and> map item_url items = [''https://host/a.MP3'', ''https://host/b.mp3'']
      \<and> read_file (snd (main example_args \<lparr>year = 2026, month = 11, day = 4\<rparr> zero_draws
                        fixed_clock example_fs)) ''public'' ''feed.xml''
        = build_feed items ''Daily Yoto Mix'' ''https://host/''
            ''Rotating daily subset of my MP3s for Yoto'' fixed_clock
      \<and> sublist ''<link>https://host/</link>''
          (read_file (snd (main example_args \<lparr>year = 2026, month = 11, day = 4\<rparr> zero_draws
                        fixed_clock example_fs)) ''public'' ''feed.xml'')
      \<and> rstrip ''https://host/'' ''/'' = ''https://host''\<close>
proof -
  let ?d = "\<lparr>year = 2026, month = 11, day = 4\<rparr>"
  let ?run = "main example_args ?d zero_draws fixed_clock example_fs"
  have "fst ?run = Inr ''Wrote 2 items to public/feed.xml''" by code_simp
  then have h: "?run = (Inr ''Wrote 2 items to public/feed.xml'', snd ?run)"
    by (metis prod.collapse)
  have s: "rstrip ''https://host/'' ''/'' = ''https://host''" by (simp add: rstrip_def)
  have a: "arg_out example_args = ''public''" "arg_site_url example_args = ''https://host/''"
    "arg_channel_title example_args = ''Daily Yoto Mix''"
    "arg_channel_desc example_args = ''Rotating daily subset of my MP3s for Yoto''"
    by (simp_all add: example_args_def)
  have sel: "select_files (arg_mode example_args) zero_draws ?d
         (mp3_files (clean_out_dir example_fs (arg_out example_args)) (arg_mp3_dir example_args))
         (arg_num example_args) = Inr [''a.MP3'', ''b.mp3'']" by code_simp
  from main_link_and_item_urls[OF h] obtain chosen items where
    c: "select_files (arg_mode example_args) zero_draws ?d
         (mp3_files (clean_out_dir example_fs (arg_out example_args)) (arg_mp3_dir example_args))
         (arg_num example_args) = Inr chosen"
    and f: "map item_filename items = chosen"
    and u: "map item_url items
          = map (\<lambda>fn. rstrip (arg_site_url example_args) ''/'' @ ''/'' @ fn) chosen"
    and r: "read_file (snd ?run) (arg_out example_args) ''feed.xml''
        = build_feed items (arg_channel_title example_args) (arg_site_url example_args)
            (arg_channel_desc example_args) fixed_clock"
    and l: "sublist (''<link>'' @ arg_site_url example_args @ ''</link>'')
          (read_file (snd ?run) (arg_out example_args) ''feed.xml'')"
    by blast
  from c sel have ch: "chosen = [''a.MP3'', ''b.mp3'']" by simp
  have f': "map item_filename items = [''a.MP3'', ''b.mp3'']" using f ch by simp
  have u': "map item_url items = [''https://host/a.MP3'', ''https://host/b.mp3'']"
    using u unfolding ch a s by simp
  have r': "read_file (snd ?run) ''public'' ''feed.xml''
        = build_feed items ''Daily Yoto Mix'' ''https://host/''
            ''Rotating daily subset of my MP3s for Yoto'' fixed_clock"
    using r unfolding a by this
  have l': "sublist (''<link>'' @ ''https://host/'' @ ''</link>'')
          (read_file (snd ?run) ''public'' ''feed.xml'')"
    using l unfolding a by this
  have lit: "''<link>'' @ ''https://host/'' @ ''</link>'' = ''<link>https://host/</link>''"
    by simp
  have l'': "sublist ''<link>https://host/</link>'' (read_file (snd ?run) ''public'' ''feed.xml'')"
    using l' unfolding lit by this
  from f' u' r' l'' s show ?thesis by (intro exI[of _ items] conjI)
qed

text \<open>
  Claim C10. The title is not injective: \<^verbatim>\<open>My_Song.mp3\<close> and \<^verbatim>\<open>My-Song.mp3\<close> are
  different filenames with the same title, since underscore and hyphen both become a
  space. The items of the two files have equal titles and differ in their URLs and GUIDs.
\<close>

theorem sanitize_title_not_injective:
  "''My_Song.mp3'' \<noteq> ''My-Song.mp3''
   \<and> sanitize_title ''My_Song.mp3'' = ''My Song''
   \<and> sanitize_title ''My-Song.mp3'' = ''My Song''
   \<and> \<not> inj sanitize_title
   \<and> map item_title (fst (copy_loop [''My_Song.mp3'', ''My-Song.mp3''] mp3_dir out_dir site_url fs []))
       = [''My Song'', ''My Song'']
   \<and> distinct (map item_url
        (fst (copy_loop [''My_Song.mp3'', ''My-Song.mp3''] mp3_dir out_dir site_url fs [])))
   \<and> distinct (map spec_guid
        (fst (copy_loop [''My_Song.mp3'', ''My-Song.mp3''] mp3_dir out_dir site_url fs [])))"
proof -
  have t1: "sanitize_title ''My_Song.mp3'' = ''My Song''" by code_simp
  have t2: "sanitize_title ''My-Song.mp3'' = ''My Song''" by code_simp
  have ne: "''My_Song.mp3'' \<noteq> ''My-Song.mp3''" by simp
  have ninj: "\<not> inj sanitize_title"
  proof
    assume "inj sanitize_title"
    then have "''My_Song.mp3'' = ''My-Song.mp3''" using t1 t2 by (metis injD)
    with ne show False by contradiction
  qed
  let ?items = "fst (copy_loop [''My_Song.mp3'', ''My-Song.mp3''] mp3_dir out_dir site_url fs [])"
  have ti: "map item_title ?items = [''My Song'', ''My Song'']"
    using copy_loop_fields[of "[''My_Song.mp3'', ''My-Song.mp3'']" mp3_dir out_dir site_url fs "[]"]
    by (simp add: t1 t2)
  have u: "distinct (map item_url ?items)"
    using copy_loop_fields[of "[''My_Song.mp3'', ''My-Song.mp3'']" mp3_dir out_dir site_url fs "[]"]
    by simp
  have g: "distinct (map spec_guid ?items)"
  proof -
    obtain it1 it2 where i: "?items = [it1, it2]"
      "item_filename it1 = ''My_Song.mp3''" "item_filename it2 = ''My-Song.mp3''"
      "item_url it1 = site_url @ ''/'' @ ''My_Song.mp3''"
      "item_url it2 = site_url @ ''/'' @ ''My-Song.mp3''"
      by (simp add: Let_def)
    have "spec_guid it1 \<noteq> spec_guid it2"
      unfolding spec_guid_def i(2-5) by simp
    then show ?thesis by (simp only: i(1) list.map distinct.simps set_simps) simp
  qed
  from ne t1 t2 ninj ti u g show ?thesis by blast
qed

text \<open>
  Claim C2 against the code. The source directory exists and holds no MP3 file; the
  output directory holds an earlier feed. The run ends with the error of line 78, but the
  cleaning of lines 72 to 74 has already run: the output directory is left empty.
\<close>

theorem main_no_mp3_cleans_output_first:
  "isdir no_mp3_fs (arg_mp3_dir example_args)
   \<and> filter (\<lambda>f. endswith (lower f) ''.mp3'') (sort (listdir no_mp3_fs (arg_mp3_dir example_args)))
       = []
   \<and> no_mp3_fs (arg_out example_args) = Some [(''old.mp3'', ''oooo''), (''feed.xml'', ''<rss/>'')]
   \<and> fst (main example_args \<lparr>year = 2026, month = 11, day = 4\<rparr> zero_draws fixed_clock no_mp3_fs)
       = Inl (SystemExit ''No mp3 files found in mp3_dir'')
   \<and> snd (main example_args \<lparr>year = 2026, month = 11, day = 4\<rparr> zero_draws fixed_clock no_mp3_fs)
        (arg_out example_args) = Some []"
proof -
  have "isdir no_mp3_fs (arg_mp3_dir example_args)" by code_simp
  moreover have "filter (\<lambda>f. endswith (lower f) ''.mp3'')
      (sort (listdir no_mp3_fs (arg_mp3_dir example_args))) = []" by code_simp
  moreover have "no_mp3_fs (arg_out example_args)
      = Some [(''old.mp3'', ''oooo''), (''feed.xml'', ''<rss/>'')]" by code_simp
  moreover have "fst (main example_args \<lparr>year = 2026, month = 11, day = 4\<rparr> zero_draws
      fixed_clock no_mp3_fs) = Inl (SystemExit ''No mp3 files found in mp3_dir'')" by code_simp
  moreover have "snd (main example_args \<lparr>year = 2026, month = 11, day = 4\<rparr> zero_draws
      fixed_clock no_mp3_fs) (arg_out example_args) = Some []" by code_simp
  ultimately show ?thesis by blast
qed

end
